theory Spec2Isabelle
  imports Complex_Main "HOL-Library.AList"
begin

section \<open>Simulation results: \<^verbatim>\<open>src/wntr/sim/results.py\<close>\<close>

subsection \<open>Data model\<close>

text \<open>
  A \<^verbatim>\<open>SimulationResults\<close> object carries two dictionaries, \<^verbatim>\<open>link\<close> and \<^verbatim>\<open>node\<close>, from
  attribute names (\<^verbatim>\<open>'flowrate'\<close>, \<^verbatim>\<open>'head'\<close>, ...) to pandas data frames. A data frame is
  modelled by its column labels (the names of network elements) and its rows in storage
  order: the index value (a time in seconds) paired with the cells of that row, one cell
  per column. A dictionary is an association
  list in insertion order; \<^verbatim>\<open>d[k] = v\<close> is \<open>AList.update\<close>, which overwrites in place or
  appends at the end as a Python dictionary does. The model covers populated objects,
  whose \<^verbatim>\<open>link\<close> and \<^verbatim>\<open>node\<close> hold dictionaries; an object fresh from the constructor, where
  both are still \<^verbatim>\<open>None\<close>, is outside it. The right operand of a call is a value of its own,
  not the left operand itself.
\<close>

datatype error = ValueError | KeyError | IndexError | AttributeError | InvalidIndexError

datatype cell = Num real | NaN

type_synonym row = "int \<times> cell list"

datatype frame = Frame (columns: "string list") (rows: "row list")

type_synonym frames = "(string \<times> frame) list"

record SimulationResults =
  timestamp :: string
  network_name :: "string option"
  sim_time :: int
  link :: frames
  node :: frames

text \<open>The right operand of an operator can be any Python value.\<close>

datatype operand =
    Results SimulationResults
  | PyInt int
  | PyBool bool
  | PyFloat real
  | PyStr string
  | PyNone

text \<open>\<^verbatim>\<open>isinstance(other, int)\<close>: \<^verbatim>\<open>bool\<close> is a subclass of \<^verbatim>\<open>int\<close>.\<close>

fun isinstance_int :: "operand \<Rightarrow> bool" where
  "isinstance_int (PyInt i) = True"
| "isinstance_int (PyBool b) = True"
| "isinstance_int x = False"

fun isinstance_SimulationResults :: "operand \<Rightarrow> bool" where
  "isinstance_SimulationResults (Results r) = True"
| "isinstance_SimulationResults x = False"

fun int_value :: "operand \<Rightarrow> int" where
  "int_value (PyInt i) = i"
| "int_value (PyBool b) = (if b then 1 else 0)"
| "int_value x = 0"

text \<open>Python's \<^verbatim>\<open>LookupError\<close> is the common base class of \<^verbatim>\<open>KeyError\<close> and \<^verbatim>\<open>IndexError\<close>.\<close>

fun is_lookup_error :: "error \<Rightarrow> bool" where
  "is_lookup_error KeyError = True"
| "is_lookup_error IndexError = True"
| "is_lookup_error e = False"

definition bind_err :: "error + 'a \<Rightarrow> ('a \<Rightarrow> error + 'b) \<Rightarrow> error + 'b" where
  "bind_err m f = (case m of Inl e \<Rightarrow> Inl e | Inr x \<Rightarrow> f x)"

subsection \<open>Dictionary access\<close>

definition getitem :: "frames \<Rightarrow> string \<Rightarrow> error + frame" where
  "getitem d k = (case map_of d k of None \<Rightarrow> Inl KeyError | Some v \<Rightarrow> Inr v)"

definition contains :: "string \<Rightarrow> frames \<Rightarrow> bool" where
  "contains k d = (map_of d k \<noteq> None)"

definition keys :: "frames \<Rightarrow> string list" where
  "keys d = map fst d"

subsection \<open>String formatting of the derived network name\<close>

fun str_nat :: "nat \<Rightarrow> string" where
  "str_nat n =
     (if n < 10 then [char_of (48 + n)]
      else str_nat (n div 10) @ [char_of (48 + n mod 10)])"

definition str_int :: "int \<Rightarrow> string" where
  "str_int i = (if i < 0 then CHR ''-'' # str_nat (nat (- i)) else str_nat (nat i))"

fun str_opt :: "string option \<Rightarrow> string" where
  "str_opt None = ''None''"
| "str_opt (Some s) = s"

fun str_operand :: "operand \<Rightarrow> string" where
  "str_operand (PyInt i) = str_int i"
| "str_operand (PyBool b) = (if b then ''True'' else ''False'')"
| "str_operand x = []"

definition tagged :: "SimulationResults \<Rightarrow> string" where
  "tagged r = str_opt (network_name r) @ ''['' @ timestamp r @ '']''"

subsection \<open>Elementwise operators\<close>

text \<open>
  The arithmetic between two data frames (\<^verbatim>\<open>self.link[key] + other.link[key]\<close> and so on)
  and between a data frame and an integer is pandas' own; the operators below take it as
  the parameter \<open>f\<close>. The parameter \<open>now\<close> is the timestamp that the constructor reads from
  the clock.

  \<^verbatim>\<open>for key in self.link.keys(): if key in other.link: new.link[key] = f(self.link[key], other.link[key])\<close>
\<close>

fun combine_keys ::
  "(frame \<Rightarrow> frame \<Rightarrow> frame) \<Rightarrow> string list \<Rightarrow> frames \<Rightarrow> frames \<Rightarrow> frames \<Rightarrow> error + frames"
where
  "combine_keys f [] s t new = Inr new"
| "combine_keys f (k # ks) s t new =
     (if contains k t then
        bind_err (getitem s k) (\<lambda>x.
        bind_err (getitem t k) (\<lambda>y.
          combine_keys f ks s t (AList.update k (f x y) new)))
      else combine_keys f ks s t new)"

text \<open>\<^verbatim>\<open>for key in self.link.keys(): new.link[key] = self.link[key] / other\<close>\<close>

fun scale_keys ::
  "(frame \<Rightarrow> int \<Rightarrow> frame) \<Rightarrow> string list \<Rightarrow> frames \<Rightarrow> int \<Rightarrow> frames \<Rightarrow> error + frames"
where
  "scale_keys f [] s n new = Inr new"
| "scale_keys f (k # ks) s n new =
     bind_err (getitem s k) (\<lambda>x. scale_keys f ks s n (AList.update k (f x n) new))"

definition results_add ::
  "(frame \<Rightarrow> frame \<Rightarrow> frame) \<Rightarrow> string \<Rightarrow> SimulationResults \<Rightarrow> operand \<Rightarrow> error + SimulationResults"
where
  "results_add frame_add now self other =
     (case other of
        Results B \<Rightarrow>
          bind_err (combine_keys frame_add (keys (link self)) (link self) (link B) []) (\<lambda>l.
          bind_err (combine_keys frame_add (keys (node self)) (node self) (node B) []) (\<lambda>n.
            Inr \<lparr>timestamp = now,
                 network_name = Some (tagged self @ '' + '' @ tagged B),
                 sim_time = 0, link = l, node = n\<rparr>))
      | _ \<Rightarrow> Inl ValueError)"

definition results_sub ::
  "(frame \<Rightarrow> frame \<Rightarrow> frame) \<Rightarrow> string \<Rightarrow> SimulationResults \<Rightarrow> operand \<Rightarrow> error + SimulationResults"
where
  "results_sub frame_sub now self other =
     (case other of
        Results B \<Rightarrow>
          bind_err (combine_keys frame_sub (keys (link self)) (link self) (link B) []) (\<lambda>l.
          bind_err (combine_keys frame_sub (keys (node self)) (node self) (node B) []) (\<lambda>n.
            Inr \<lparr>timestamp = now,
                 network_name = Some (tagged self @ '' - '' @ tagged B),
                 sim_time = 0, link = l, node = n\<rparr>))
      | _ \<Rightarrow> Inl ValueError)"

definition results_truediv ::
  "(frame \<Rightarrow> frame \<Rightarrow> frame) \<Rightarrow> (frame \<Rightarrow> int \<Rightarrow> frame) \<Rightarrow> string \<Rightarrow>
   SimulationResults \<Rightarrow> operand \<Rightarrow> error + SimulationResults"
where
  "results_truediv frame_div frame_div_int now self other =
     (case other of
        Results B \<Rightarrow>
          bind_err (combine_keys frame_div (keys (link self)) (link self) (link B) []) (\<lambda>l.
          bind_err (combine_keys frame_div (keys (node self)) (node self) (node B) []) (\<lambda>n.
            Inr \<lparr>timestamp = now,
                 network_name = Some (tagged self @ '' / '' @ tagged B),
                 sim_time = 0, link = l, node = n\<rparr>))
      | _ \<Rightarrow>
          if isinstance_int other then
            bind_err (scale_keys frame_div_int (keys (link self)) (link self) (int_value other) []) (\<lambda>l.
            bind_err (scale_keys frame_div_int (keys (node self)) (node self) (int_value other) []) (\<lambda>n.
              Inr \<lparr>timestamp = now,
                   network_name = Some (tagged self @ '' / '' @ str_operand other),
                   sim_time = 0, link = l, node = n\<rparr>))
          else Inl ValueError)"


subsection \<open>Merging two result sets in time\<close>

text \<open>\<^verbatim>\<open>frame.index.values[0]\<close> raises \<^verbatim>\<open>IndexError\<close> on a frame without rows.\<close>

definition first_index :: "frame \<Rightarrow> error + int" where
  "first_index f = (case rows f of [] \<Rightarrow> Inl IndexError | r # rs \<Rightarrow> Inr (fst r))"

text \<open>\<^verbatim>\<open>frame.index.values < start_time\<close>: one boolean per row.\<close>

definition keep_mask :: "frame \<Rightarrow> int \<Rightarrow> bool list" where
  "keep_mask f start_time = map (\<lambda>r. fst r < start_time) (rows f)"

text \<open>
  \<^verbatim>\<open>frame.loc[keep]\<close> with a boolean array selects rows by position and keeps the columns;
  pandas refuses a mask whose length is not the number of rows (\<^verbatim>\<open>IndexError\<close>: boolean
  index has wrong length).
\<close>

definition loc :: "frame \<Rightarrow> bool list \<Rightarrow> error + frame" where
  "loc f keep =
     (if length keep = length (rows f)
      then Inr (Frame (columns f) (map snd (filter fst (zip keep (rows f)))))
      else Inl IndexError)"

fun cell_mul :: "cell \<Rightarrow> cell \<Rightarrow> cell" where
  "cell_mul (Num x) (Num y) = Num (x * y)"
| "cell_mul c d = NaN"

definition mul_scalar :: "frame \<Rightarrow> cell \<Rightarrow> frame" where
  "mul_scalar f s =
     Frame (columns f) (map (\<lambda>r. (fst r, map (\<lambda>c. cell_mul c s) (snd r))) (rows f))"

text \<open>
  \<^verbatim>\<open>frame * pd.nan\<close>. The name \<^verbatim>\<open>nan\<close> is looked up in the pandas namespace, which is
  not part of this repository: \<open>pd_nan\<close> is \<open>None\<close> when that namespace has no such attribute
  (the lookup raises \<^verbatim>\<open>AttributeError\<close>) and \<open>Some s\<close> when it resolves to the scalar \<open>s\<close>.
  The frame is looked up before the attribute, as Python evaluates the left operand first.
  The pandas releases that have \<^verbatim>\<open>DataFrame.append\<close> have no attribute \<^verbatim>\<open>nan\<close> (NumPy, imported
  as \<^verbatim>\<open>np\<close> by the module, has it): there \<open>pd_nan\<close> is \<open>None\<close>.
\<close>

definition times_pd_nan :: "cell option \<Rightarrow> frame \<Rightarrow> error + frame" where
  "times_pd_nan pd_nan f =
     (case pd_nan of None \<Rightarrow> Inl AttributeError | Some s \<Rightarrow> Inr (mul_scalar f s))"

text \<open>
  A row under new column labels: the cell of a label the row has, \<^verbatim>\<open>NaN\<close> under a label it
  lacks.
\<close>

definition reindex :: "string list \<Rightarrow> string list \<Rightarrow> row \<Rightarrow> row" where
  "reindex old new r =
     (fst r, map (\<lambda>c. case map_of (zip old (snd r)) c of None \<Rightarrow> NaN | Some v \<Rightarrow> v) new)"

text \<open>
  \<^verbatim>\<open>a.append(b)\<close> puts the rows of \<open>b\<close> below those of \<open>a\<close> and aligns the columns by label.
  With the same labels in the same order the rows are stacked as they are. Otherwise the
  result has the labels of \<open>a\<close> followed by the labels only \<open>b\<close> has, and every row is
  re-indexed to them; pandas refuses that re-indexing when a frame repeats a label.
\<close>

definition frame_append :: "frame \<Rightarrow> frame \<Rightarrow> error + frame" where
  "frame_append a b =
     (if columns a = columns b then Inr (Frame (columns a) (rows a @ rows b))
      else if distinct (columns a) \<and> distinct (columns b) then
        (let cols = columns a @ filter (\<lambda>c. c \<notin> set (columns a)) (columns b)
         in Inr (Frame cols
                  (map (reindex (columns a) cols) (rows a) @
                   map (reindex (columns b) cols) (rows b))))
      else Inl InvalidIndexError)"

text \<open>
  The body of the loops over \<^verbatim>\<open>self.link.keys()\<close> and \<^verbatim>\<open>self.node.keys()\<close> (lines 229 to 236
  and 242 to 249); \<open>template\<close> is \<^verbatim>\<open>'flowrate'\<close> for links and \<^verbatim>\<open>'head'\<close> for nodes.
\<close>

definition merge_own_key ::
  "cell option \<Rightarrow> string \<Rightarrow> bool list \<Rightarrow> frames \<Rightarrow> string \<Rightarrow> frames \<Rightarrow> error + frames"
where
  "merge_own_key pd_nan template keep other key d =
     (if contains key other then
        bind_err (getitem d key) (\<lambda>s.
        bind_err (loc s keep) (\<lambda>kept.
        bind_err (getitem other key) (\<lambda>b.
        bind_err (frame_append kept b) (\<lambda>t2.
          Inr (AList.update key t2 d)))))
      else
        bind_err (getitem other template) (\<lambda>tf.
        bind_err (times_pd_nan pd_nan tf) (\<lambda>temp.
        bind_err (getitem d key) (\<lambda>s.
        bind_err (loc s keep) (\<lambda>kept.
        bind_err (frame_append kept temp) (\<lambda>t2.
          Inr (AList.update key t2 d)))))))"

text \<open>
  The body of the loops over \<^verbatim>\<open>other.link.keys()\<close> and \<^verbatim>\<open>other.node.keys()\<close> (lines 237 to
  241 and 250 to 254). The template frame is read from \<^verbatim>\<open>self\<close> as the preceding loop left
  it.
\<close>

definition merge_other_key ::
  "cell option \<Rightarrow> string \<Rightarrow> bool list \<Rightarrow> frames \<Rightarrow> string \<Rightarrow> frames \<Rightarrow> error + frames"
where
  "merge_other_key pd_nan template keep other key d =
     (if \<not> contains key d then
        bind_err (getitem d template) (\<lambda>tf.
        bind_err (times_pd_nan pd_nan tf) (\<lambda>temp.
        bind_err (loc temp keep) (\<lambda>kept.
        bind_err (getitem other key) (\<lambda>b.
        bind_err (frame_append kept b) (\<lambda>t2.
          Inr (AList.update key t2 d))))))
      else Inr d)"

text \<open>
  A \<^verbatim>\<open>for\<close> loop whose body updates the dictionary in place: an exception leaves the
  dictionary as the completed iterations made it.
\<close>

fun for_keys ::
  "(string \<Rightarrow> frames \<Rightarrow> error + frames) \<Rightarrow> string list \<Rightarrow> frames \<Rightarrow> frames \<times> error option"
where
  "for_keys body [] d = (d, None)"
| "for_keys body (k # ks) d =
     (case body k d of Inl e \<Rightarrow> (d, Some e) | Inr d' \<Rightarrow> for_keys body ks d')"

text \<open>The two loops over one attribute group.\<close>

definition merge_frames ::
  "cell option \<Rightarrow> string \<Rightarrow> bool list \<Rightarrow> frames \<Rightarrow> frames \<Rightarrow> frames \<times> error option"
where
  "merge_frames pd_nan template keep own other =
     (case for_keys (merge_own_key pd_nan template keep other) (keys own) own of
        (d1, Some e) \<Rightarrow> (d1, Some e)
      | (d1, None) \<Rightarrow> for_keys (merge_other_key pd_nan template keep other) (keys other) d1)"

text \<open>Lines 229 to 254: the link loops, then the node loops.\<close>

definition merge_results ::
  "cell option \<Rightarrow> bool list \<Rightarrow> SimulationResults \<Rightarrow> SimulationResults \<Rightarrow>
   SimulationResults \<times> error option"
where
  "merge_results pd_nan keep self B =
     (case merge_frames pd_nan ''flowrate'' keep (link self) (link B) of
        (l, Some e) \<Rightarrow> (self\<lparr>link := l\<rparr>, Some e)
      | (l, None) \<Rightarrow>
          (case merge_frames pd_nan ''head'' keep (node self) (node B) of
             (n, r) \<Rightarrow> (self\<lparr>link := l, node := n\<rparr>, r)))"

text \<open>
  The result pairs the state in which \<^verbatim>\<open>self\<close> is left with the exception raised, if any.
\<close>

definition append_results_from ::
  "cell option \<Rightarrow> SimulationResults \<Rightarrow> operand \<Rightarrow> SimulationResults \<times> error option"
where
  "append_results_from pd_nan self other =
     (case other of
        Results B \<Rightarrow>
          (case bind_err (getitem (node B) ''head'') first_index of
             Inl e \<Rightarrow> (self, Some e)
           | Inr start_time \<Rightarrow>
               (case getitem (node self) ''head'' of
                  Inl e \<Rightarrow> (self, Some e)
                | Inr h \<Rightarrow> merge_results pd_nan (keep_mask h start_time) self B))
      | _ \<Rightarrow> (self, Some ValueError))"

text \<open>
  A time-ordered result set: the \<^verbatim>\<open>'head'\<close> series exists and has rows, its times increase
  strictly, every frame of the object is indexed by the same times, and no key occurs
  twice in a dictionary.
\<close>

definition time_ordered :: "SimulationResults \<Rightarrow> bool" where
  "time_ordered R =
     (case map_of (node R) ''head'' of
        None \<Rightarrow> False
      | Some h \<Rightarrow>
          rows h \<noteq> [] \<and> sorted_wrt (<) (map fst (rows h)) \<and>
          list_all (\<lambda>kf. map fst (rows (snd kf)) = map fst (rows h)) (link R @ node R) \<and>
          distinct (keys (link R)) \<and> distinct (keys (node R)))"

text \<open>
  The value the elementwise operators store under a key: present only when both operands
  have the key, and then the combination of the two frames.
\<close>

definition both :: "(frame \<Rightarrow> frame \<Rightarrow> frame) \<Rightarrow> frames \<Rightarrow> frames \<Rightarrow> string \<Rightarrow> frame option" where
  "both f s t k =
     (case map_of s k of None \<Rightarrow> None
      | Some x \<Rightarrow> (case map_of t k of None \<Rightarrow> None | Some y \<Rightarrow> Some (f x y)))"

text \<open>
  The series a merge is expected to store for a key of both objects: the rows of \<open>a\<close> with
  a time strictly below the cut time, followed by all rows of \<open>b\<close>.
\<close>

definition splice :: "int \<Rightarrow> frame \<Rightarrow> frame \<Rightarrow> frame" where
  "splice start_time a b =
     Frame (columns a) (filter (\<lambda>r. fst r < start_time) (rows a) @ rows b)"

subsection \<open>Example objects\<close>

text \<open>
  Two runs of one network with the pipe \<^verbatim>\<open>p1\<close> and the junction \<^verbatim>\<open>j1\<close>, reported every 25
  seconds: \<open>A_ex\<close> covers the times from 0 up to 100, \<open>B_ex\<close> the times from 50 up to 150, and
  \<open>A_ex\<close> has two attributes that \<open>B_ex\<close> lacks. \<open>C_ex\<close> has the times of \<open>A_ex\<close> and a single
  link attribute; \<open>D_ex\<close> is \<open>A_ex\<close> cut down to the attributes of \<open>B_ex\<close>; \<open>E_ex\<close> is \<open>B_ex\<close> with
  one more link attribute.
\<close>

fun cell_add :: "cell \<Rightarrow> cell \<Rightarrow> cell" where
  "cell_add (Num x) (Num y) = Num (x + y)"
| "cell_add c d = NaN"

text \<open>Frame addition as pandas computes it on two frames with the same index and columns.\<close>

definition rows_add :: "frame \<Rightarrow> frame \<Rightarrow> frame" where
  "rows_add x y =
     Frame (columns x) (map2 (\<lambda>r s. (fst r, map2 cell_add (snd r) (snd s))) (rows x) (rows y))"

definition A_ex :: SimulationResults where
  "A_ex = \<lparr>timestamp = ''run-a'', network_name = Some ''net'', sim_time = 100,
     link = [(''flowrate'',
                Frame [''p1''] [(0, [Num 1]), (25, [Num 2]), (50, [Num 3]), (75, [Num 4])]),
             (''velocity'',
                Frame [''p1''] [(0, [Num 5]), (25, [Num 6]), (50, [Num 7]), (75, [Num 8])])],
     node = [(''head'',
                Frame [''j1''] [(0, [Num 10]), (25, [Num 20]), (50, [Num 30]), (75, [Num 40])]),
             (''pressure'',
                Frame [''j1''] [(0, [Num 11]), (25, [Num 21]), (50, [Num 31]), (75, [Num 41])])]\<rparr>"

definition B_ex :: SimulationResults where
  "B_ex = \<lparr>timestamp = ''run-b'', network_name = Some ''net'', sim_time = 150,
     link = [(''flowrate'',
                Frame [''p1''] [(50, [Num 31]), (75, [Num 41]), (100, [Num 51]), (125, [Num 61])])],
     node = [(''head'',
                Frame [''j1''] [(50, [Num 35]), (75, [Num 45]), (100, [Num 55]), (125, [Num 65])])]\<rparr>"

definition C_ex :: SimulationResults where
  "C_ex = A_ex\<lparr>link :=
     [(''velocity'', Frame [''p1''] [(0, [Num 1]), (25, [Num 1]), (50, [Num 1]), (75, [Num 1])])]\<rparr>"

definition D_ex :: SimulationResults where
  "D_ex = A_ex\<lparr>
     link := [(''flowrate'',
                 Frame [''p1''] [(0, [Num 1]), (25, [Num 2]), (50, [Num 3]), (75, [Num 4])])],
     node := [(''head'',
                 Frame [''j1''] [(0, [Num 10]), (25, [Num 20]), (50, [Num 30]), (75, [Num 40])])]\<rparr>"

definition E_ex :: SimulationResults where
  "E_ex = B_ex\<lparr>link := link B_ex @
     [(''velocity'',
         Frame [''p1''] [(50, [Num 7]), (75, [Num 8]), (100, [Num 9]), (125, [Num 9])])]\<rparr>"

text \<open>The state in which the call on the two runs leaves the first one.\<close>

definition partial_ex :: SimulationResults where
  "partial_ex = A_ex\<lparr>link :=
     [(''flowrate'',
         Frame [''p1''] [(0, [Num 1]), (25, [Num 2]),
                         (50, [Num 31]), (75, [Num 41]), (100, [Num 51]), (125, [Num 61])]),
      (''velocity'',
         Frame [''p1''] [(0, [Num 5]), (25, [Num 6]), (50, [Num 7]), (75, [Num 8])])]\<rparr>"

section \<open>The water network model exercised by \<^verbatim>\<open>src/epanetlib/tests/test_network.py\<close>\<close>

text \<open>
  The tests call \<^verbatim>\<open>epanetlib.network.WaterNetworkModel\<close>, whose module \<^verbatim>\<open>epanetlib/network\<close>
  is not among the source files: the class, its methods and the pump curve solver are
  missing. The definitions of this section are modelled from the specification (sections
  3, 4 and 7), each under a note that names the missing part it stands for.
\<close>

subsection \<open>Data model\<close>

text \<open>Modelled from the spec: the exceptions of the missing module, the taxonomy of section 7.\<close>

datatype net_error =
    DuplicateNameError
  | NotFoundError
  | UnsupportedCurveShapeError
  | ConvergenceError
  | SingularityError

text \<open>
  Modelled from the spec: a numeric argument as the caller supplies it, an integer or a
  floating-point number, and the coercion of section 4.1 that every add-operation applies
  before it stores the value.
\<close>

datatype number = IntNum int | FloatNum real

fun to_float :: "number \<Rightarrow> real" where
  "to_float (IntNum i) = of_int i"
| "to_float (FloatNum x) = x"

text \<open>
  Modelled from the spec: the missing node classes (junction, tank, reservoir), the node
  variants of section 3, each with its name.
\<close>

datatype node_element =
    Junction (node_name: string) (elevation: real) (base_demand: real)
      (demand_pattern_name: "string option")
  | Tank (node_name: string) (elevation: real) (init_level: real) (min_level: real)
      (max_level: real) (tank_diameter: real) (min_vol: real)
  | Reservoir (node_name: string) (base_head: real) (head_pattern_name: "string option")

text \<open>
  Modelled from the spec: the missing curve class, a curve of section 3 with its type tag
  and its points in order.
\<close>

datatype curve_type = HEAD | EFFICIENCY | VOLUME | HEADLOSS

record curve =
  curve_name :: string
  curve_kind :: curve_type
  points :: "(real \<times> real) list"

text \<open>
  Modelled from the spec: what a pump of the missing pump class is driven by. A pump of type HEAD refers to its
  curve and carries the coefficients \<open>(a, b, c)\<close> solved from it; the other type is a
  constant power.
\<close>

datatype pump_info =
    HeadPump curve "real \<times> real \<times> real"
  | PowerPump real

text \<open>
  Modelled from the spec: the missing link classes (pipe, pump, valve), the link variants
  of section 3. The base status of a pipe is
  stored as the upper-cased status word (\<^verbatim>\<open>OPEN\<close>, \<^verbatim>\<open>CLOSED\<close> or \<^verbatim>\<open>CV\<close>), as
  \<^verbatim>\<open>test_add_pipe\<close> reads it back.
\<close>

datatype link_element =
    Pipe (link_name: string) (start_node: string) (end_node: string)
      (pipe_length: real) (diameter: real) (roughness: real) (minor_loss: real)
      (base_status: string)
  | Pump (link_name: string) (start_node: string) (end_node: string) (info: pump_info)
  | Valve (link_name: string) (start_node: string) (end_node: string)
      (valve_type: string) (setting: real)

text \<open>
  Modelled from the spec: the state of the missing class \<^verbatim>\<open>WaterNetworkModel\<close>, the network
  model of section 3. The registries and the curve
  store are association lists in insertion order; the topology graph is a list of vertices
  and a list of directed edges, each edge labelled with the name of its link; the
  check-valve names are a list, as the tests compare them.
\<close>

record WaterNetworkModel =
  nodes :: "(string \<times> node_element) list"
  links :: "(string \<times> link_element) list"
  curves :: "(string \<times> curve) list"
  graph_nodes :: "string list"
  graph_edges :: "(string \<times> string \<times> string) list"
  check_valves :: "string list"
  num_junctions :: nat
  num_tanks :: nat
  num_reservoirs :: nat
  num_pipes :: nat
  num_pumps :: nat
  num_valves :: nat

text \<open>
  Modelled from the spec: the model the missing constructor \<^verbatim>\<open>WaterNetworkModel()\<close> returns,
  with nothing registered.
\<close>

definition empty_model :: WaterNetworkModel where
  "empty_model =
     \<lparr>nodes = [], links = [], curves = [], graph_nodes = [], graph_edges = [],
      check_valves = [], num_junctions = 0, num_tanks = 0, num_reservoirs = 0,
      num_pipes = 0, num_pumps = 0, num_valves = 0\<rparr>"

subsection \<open>Registry queries\<close>

text \<open>
  Modelled from the spec: membership in the node and the link registry of the missing
  class, the test behind \<^verbatim>\<open>DuplicateNameError\<close> and \<^verbatim>\<open>NotFoundError\<close> (section 4.1).
\<close>

definition has_node :: "WaterNetworkModel \<Rightarrow> string \<Rightarrow> bool" where
  "has_node wn name = (map_of (nodes wn) name \<noteq> None)"

definition has_link :: "WaterNetworkModel \<Rightarrow> string \<Rightarrow> bool" where
  "has_link wn name = (map_of (links wn) name \<noteq> None)"

text \<open>
  Modelled from the spec: the missing methods \<^verbatim>\<open>get_node\<close>, \<^verbatim>\<open>get_link\<close> and \<^verbatim>\<open>get_curve\<close>
  (sections 4.1 and 4.2), which fail with \<^verbatim>\<open>NotFoundError\<close> on an unknown name.
\<close>

definition get_node :: "WaterNetworkModel \<Rightarrow> string \<Rightarrow> net_error + node_element" where
  "get_node wn name = (case map_of (nodes wn) name of None \<Rightarrow> Inl NotFoundError | Some n \<Rightarrow> Inr n)"

definition get_link :: "WaterNetworkModel \<Rightarrow> string \<Rightarrow> net_error + link_element" where
  "get_link wn name = (case map_of (links wn) name of None \<Rightarrow> Inl NotFoundError | Some l \<Rightarrow> Inr l)"

definition get_curve :: "WaterNetworkModel \<Rightarrow> string \<Rightarrow> net_error + curve" where
  "get_curve wn name = (case map_of (curves wn) name of None \<Rightarrow> Inl NotFoundError | Some c \<Rightarrow> Inr c)"

text \<open>
  Modelled from the spec: the missing method \<^verbatim>\<open>get_links_for_node\<close> (section 4.3), the
  names of the links on the edges that leave or enter the vertex, in the order of the edge
  list.
\<close>

definition get_links_for_node :: "WaterNetworkModel \<Rightarrow> string \<Rightarrow> string list" where
  "get_links_for_node wn name =
     map (\<lambda>e. snd (snd e)) (filter (\<lambda>e. fst e = name \<or> fst (snd e) = name) (graph_edges wn))"

subsection \<open>Adding nodes\<close>

text \<open>
  Modelled from the spec: the step the three missing node add-operations share (sections
  4.1 and 4.3): the name must be new among the nodes; the element is registered and one vertex
  without edges is inserted.
\<close>

definition register_node ::
  "WaterNetworkModel \<Rightarrow> string \<Rightarrow> node_element \<Rightarrow> net_error + WaterNetworkModel"
where
  "register_node wn name n =
     (if has_node wn name then Inl DuplicateNameError
      else Inr (wn\<lparr>nodes := nodes wn @ [(name, n)], graph_nodes := graph_nodes wn @ [name]\<rparr>))"

text \<open>
  Modelled from the spec: the missing methods \<^verbatim>\<open>add_junction(name, demand, pattern, elevation)\<close>,
  \<^verbatim>\<open>add_tank\<close> and \<^verbatim>\<open>add_reservoir\<close> (section 4.1), with the argument order of the tests.
\<close>

definition add_junction ::
  "WaterNetworkModel \<Rightarrow> string \<Rightarrow> number \<Rightarrow> string option \<Rightarrow> number \<Rightarrow>
   net_error + WaterNetworkModel"
where
  "add_junction wn name demand pattern elev =
     (case register_node wn name (Junction name (to_float elev) (to_float demand) pattern) of
        Inl e \<Rightarrow> Inl e
      | Inr wn' \<Rightarrow> Inr (wn'\<lparr>num_junctions := Suc (num_junctions wn')\<rparr>))"

definition add_tank ::
  "WaterNetworkModel \<Rightarrow> string \<Rightarrow> number \<Rightarrow> number \<Rightarrow> number \<Rightarrow> number \<Rightarrow> number \<Rightarrow> number \<Rightarrow>
   net_error + WaterNetworkModel"
where
  "add_tank wn name elev init_lvl min_lvl max_lvl diam vol =
     (case register_node wn name
             (Tank name (to_float elev) (to_float init_lvl) (to_float min_lvl)
                (to_float max_lvl) (to_float diam) (to_float vol)) of
        Inl e \<Rightarrow> Inl e
      | Inr wn' \<Rightarrow> Inr (wn'\<lparr>num_tanks := Suc (num_tanks wn')\<rparr>))"

definition add_reservoir ::
  "WaterNetworkModel \<Rightarrow> string \<Rightarrow> number \<Rightarrow> string option \<Rightarrow> net_error + WaterNetworkModel"
where
  "add_reservoir wn name head pattern =
     (case register_node wn name (Reservoir name (to_float head) pattern) of
        Inl e \<Rightarrow> Inl e
      | Inr wn' \<Rightarrow> Inr (wn'\<lparr>num_reservoirs := Suc (num_reservoirs wn')\<rparr>))"

subsection \<open>Adding and removing links\<close>

text \<open>
  Modelled from the spec: the step the three missing link add-operations share (sections
  3, 4.1 and 4.3): the name must be new among the links, and exactly one directed edge
  from the start node to the end node is inserted. The edge set of section 3 lives on the vertex
  set, which equals the key set of the node registry, so both end points must be
  registered nodes; an unknown one is reported as \<^verbatim>\<open>NotFoundError\<close>.
\<close>

definition register_link ::
  "WaterNetworkModel \<Rightarrow> string \<Rightarrow> link_element \<Rightarrow> net_error + WaterNetworkModel"
where
  "register_link wn name l =
     (if has_link wn name then Inl DuplicateNameError
      else if \<not> has_node wn (start_node l) \<or> \<not> has_node wn (end_node l) then Inl NotFoundError
      else Inr (wn\<lparr>links := links wn @ [(name, l)],
                    graph_edges := graph_edges wn @ [(start_node l, end_node l, name)]\<rparr>))"

text \<open>
  Modelled from the spec: the case-insensitive reading of a status word in the missing
  method \<^verbatim>\<open>add_pipe\<close> (section 4.5): the word is compared in upper case.
\<close>

definition to_upper :: "char \<Rightarrow> char" where
  "to_upper c =
     (let n = (of_char c :: nat) in if 97 \<le> n \<and> n \<le> 122 then char_of (n - 32) else c)"

definition upper :: "string \<Rightarrow> string" where
  "upper s = map to_upper s"

text \<open>
  Modelled from the spec: the missing method \<^verbatim>\<open>add_pipe\<close> (section 4.5). A pipe whose
  normalised status is \<^verbatim>\<open>CV\<close> is also entered into the check-valve names.
\<close>

definition add_pipe ::
  "WaterNetworkModel \<Rightarrow> string \<Rightarrow> string \<Rightarrow> string \<Rightarrow> number \<Rightarrow> number \<Rightarrow> number \<Rightarrow> number \<Rightarrow>
   string \<Rightarrow> net_error + WaterNetworkModel"
where
  "add_pipe wn name start end len diam rough mloss status =
     (case register_link wn name
             (Pipe name start end (to_float len) (to_float diam) (to_float rough)
                (to_float mloss) (upper status)) of
        Inl e \<Rightarrow> Inl e
      | Inr wn' \<Rightarrow>
          Inr (wn'\<lparr>num_pipes := Suc (num_pipes wn'),
                    check_valves :=
                      (if upper status = ''CV'' then check_valves wn' @ [name]
                       else check_valves wn')\<rparr>))"

text \<open>
  Modelled from the spec: the removal of a link's registry entry and of its edge, shared
  by the missing link remove-operations (section 4.3: every removal deletes exactly that
  edge), and the kind of a registered link.
\<close>

definition unregister_link :: "WaterNetworkModel \<Rightarrow> string \<Rightarrow> WaterNetworkModel" where
  "unregister_link wn name =
     wn\<lparr>links := filter (\<lambda>kl. fst kl \<noteq> name) (links wn),
        graph_edges := filter (\<lambda>e. snd (snd e) \<noteq> name) (graph_edges wn)\<rparr>"

fun is_pipe :: "link_element \<Rightarrow> bool" where
  "is_pipe (Pipe n s e l d r m st) = True"
| "is_pipe x = False"

fun is_pump :: "link_element \<Rightarrow> bool" where
  "is_pump (Pump n s e i) = True"
| "is_pump x = False"

fun is_valve :: "link_element \<Rightarrow> bool" where
  "is_valve (Valve n s e t v) = True"
| "is_valve x = False"

text \<open>
  Modelled from the spec: the missing method \<^verbatim>\<open>remove_pipe\<close> (section 4.5: the pipe is
  deleted, its name leaves the check-valve names whether or not it was there, its edge is
  removed and the pipe count decremented), and \<^verbatim>\<open>remove_pump\<close> and \<^verbatim>\<open>remove_valve\<close> after sections 4.1 and
  4.3. Each fails with \<^verbatim>\<open>NotFoundError\<close> when no element of its kind has the name.
\<close>

definition remove_pipe :: "WaterNetworkModel \<Rightarrow> string \<Rightarrow> net_error + WaterNetworkModel" where
  "remove_pipe wn name =
     (case map_of (links wn) name of
        None \<Rightarrow> Inl NotFoundError
      | Some l \<Rightarrow>
          if is_pipe l then
            Inr ((unregister_link wn name)
                   \<lparr>check_valves := removeAll name (check_valves wn),
                    num_pipes := num_pipes wn - 1\<rparr>)
          else Inl NotFoundError)"

definition remove_pump :: "WaterNetworkModel \<Rightarrow> string \<Rightarrow> net_error + WaterNetworkModel" where
  "remove_pump wn name =
     (case map_of (links wn) name of
        None \<Rightarrow> Inl NotFoundError
      | Some l \<Rightarrow>
          if is_pump l then Inr ((unregister_link wn name)\<lparr>num_pumps := num_pumps wn - 1\<rparr>)
          else Inl NotFoundError)"

definition remove_valve :: "WaterNetworkModel \<Rightarrow> string \<Rightarrow> net_error + WaterNetworkModel" where
  "remove_valve wn name =
     (case map_of (links wn) name of
        None \<Rightarrow> Inl NotFoundError
      | Some l \<Rightarrow>
          if is_valve l then Inr ((unregister_link wn name)\<lparr>num_valves := num_valves wn - 1\<rparr>)
          else Inl NotFoundError)"

text \<open>
  Modelled from the spec: the missing method \<^verbatim>\<open>add_valve\<close> (sections 3 and 4.3), which
  registers a valve with its type and setting.
\<close>

definition add_valve ::
  "WaterNetworkModel \<Rightarrow> string \<Rightarrow> string \<Rightarrow> string \<Rightarrow> string \<Rightarrow> number \<Rightarrow>
   net_error + WaterNetworkModel"
where
  "add_valve wn name start end vtype vsetting =
     (case register_link wn name (Valve name start end vtype (to_float vsetting)) of
        Inl e \<Rightarrow> Inl e
      | Inr wn' \<Rightarrow> Inr (wn'\<lparr>num_valves := Suc (num_valves wn')\<rparr>))"

subsection \<open>Curves and the pump curve solver\<close>

text \<open>
  Modelled from the spec: the missing method \<^verbatim>\<open>add_curve\<close> (section 4.2), which stores the points as given
  and in order; a second curve under an existing name is the \<^verbatim>\<open>DuplicateNameError\<close> of
  section 7.
\<close>

definition add_curve ::
  "WaterNetworkModel \<Rightarrow> string \<Rightarrow> curve_type \<Rightarrow> (real \<times> real) list \<Rightarrow>
   net_error + WaterNetworkModel"
where
  "add_curve wn name kind pts =
     (if map_of (curves wn) name \<noteq> None then Inl DuplicateNameError
      else Inr (wn\<lparr>curves := curves wn @
                  [(name, \<lparr>curve_name = name, curve_kind = kind, points = pts\<rparr>)]\<rparr>))"

text \<open>
  Modelled from the spec: the one-point policy of the missing pump curve solver (section
  4.4). The point \<open>(q2, h2)\<close> is the
  nominal point of the three-point shape with shutoff head \<open>h1 = (4/3) h2\<close> at \<open>q1 = 0\<close> and
  maximum flow \<open>q3 = 2 q2\<close> at \<open>h3 = 0\<close>. The relations these points imply for
  \<open>h = a - b q^c\<close> are closed: the first gives \<open>a = (4/3) h2\<close>, the quotient of the other two
  gives \<open>2^c = 4\<close>, that is \<open>c = 2\<close>, and the second then gives \<open>b = h2 / (3 q2^2)\<close>. A point
  with zero flow makes the three flows coincide and is the degenerate input of section 7.
\<close>

definition one_point_coefficients :: "real \<Rightarrow> real \<Rightarrow> net_error + real \<times> real \<times> real" where
  "one_point_coefficients q2 h2 =
     (if q2 = 0 then Inl SingularityError
      else Inr ((4 / 3) * h2, (1 / 3) * (h2 / q2\<^sup>2), 2))"

text \<open>
  Modelled from the spec: the missing pump curve solver (section 4.4), by point count. The
  three-point system is solved by a numerical root-finder, which the specification does
  not define further: it is the parameter \<open>root_finder\<close>.
\<close>

definition head_curve_coefficients ::
  "((real \<times> real) list \<Rightarrow> net_error + real \<times> real \<times> real) \<Rightarrow> curve \<Rightarrow>
   net_error + real \<times> real \<times> real"
where
  "head_curve_coefficients root_finder cv =
     (case points cv of
        [p] \<Rightarrow> one_point_coefficients (fst p) (snd p)
      | [p1, p2, p3] \<Rightarrow> root_finder [p1, p2, p3]
      | _ \<Rightarrow> Inl UnsupportedCurveShapeError)"

text \<open>
  Modelled from the spec: the missing method \<^verbatim>\<open>add_pump\<close> (section 4.5); its last argument
  is the HEAD curve or the constant power. For the type HEAD the solver runs
  first and its failure is the failure of \<^verbatim>\<open>add_pump\<close>, with the model untouched.
\<close>

datatype pump_argument = HeadCurve curve | Power number

definition add_pump ::
  "((real \<times> real) list \<Rightarrow> net_error + real \<times> real \<times> real) \<Rightarrow> WaterNetworkModel \<Rightarrow>
   string \<Rightarrow> string \<Rightarrow> string \<Rightarrow> pump_argument \<Rightarrow> net_error + WaterNetworkModel"
where
  "add_pump root_finder wn name start end arg =
     (case (case arg of
              HeadCurve cv \<Rightarrow>
                (case head_curve_coefficients root_finder cv of
                   Inl e \<Rightarrow> Inl e
                 | Inr abc \<Rightarrow> Inr (HeadPump cv abc))
            | Power p \<Rightarrow> Inr (PowerPump (to_float p))) of
        Inl e \<Rightarrow> Inl e
      | Inr i \<Rightarrow>
          (case register_link wn name (Pump name start end i) of
             Inl e \<Rightarrow> Inl e
           | Inr wn' \<Rightarrow> Inr (wn'\<lparr>num_pumps := Suc (num_pumps wn')\<rparr>)))"

subsection \<open>Histories of a model\<close>

text \<open>
  Modelled from the spec: the mutations of the missing facade as data, and a model's history as a
  sequence of them applied to the empty model. A mutation that fails leaves the model as
  it was (section 7).
\<close>

datatype operation =
    AddJunction string number "string option" number
  | AddTank string number number number number number number
  | AddReservoir string number "string option"
  | AddPipe string string string number number number number string
  | AddPump string string string pump_argument
  | AddValve string string string string number
  | AddCurve string curve_type "(real \<times> real) list"
  | RemovePipe string
  | RemovePump string
  | RemoveValve string

fun apply_operation ::
  "((real \<times> real) list \<Rightarrow> net_error + real \<times> real \<times> real) \<Rightarrow> WaterNetworkModel \<Rightarrow>
   operation \<Rightarrow> net_error + WaterNetworkModel"
where
  "apply_operation rf wn (AddJunction n d p e) = add_junction wn n d p e"
| "apply_operation rf wn (AddTank n e i lo hi d v) = add_tank wn n e i lo hi d v"
| "apply_operation rf wn (AddReservoir n h p) = add_reservoir wn n h p"
| "apply_operation rf wn (AddPipe n s e l d r m st) = add_pipe wn n s e l d r m st"
| "apply_operation rf wn (AddPump n s e a) = add_pump rf wn n s e a"
| "apply_operation rf wn (AddValve n s e t v) = add_valve wn n s e t v"
| "apply_operation rf wn (AddCurve n k pts) = add_curve wn n k pts"
| "apply_operation rf wn (RemovePipe n) = remove_pipe wn n"
| "apply_operation rf wn (RemovePump n) = remove_pump wn n"
| "apply_operation rf wn (RemoveValve n) = remove_valve wn n"

fun run ::
  "((real \<times> real) list \<Rightarrow> net_error + real \<times> real \<times> real) \<Rightarrow> WaterNetworkModel \<Rightarrow>
   operation list \<Rightarrow> WaterNetworkModel"
where
  "run rf wn [] = wn"
| "run rf wn (x # xs) =
     run rf (case apply_operation rf wn x of Inl e \<Rightarrow> wn | Inr wn' \<Rightarrow> wn') xs"

subsection \<open>Invariants of the model\<close>

text \<open>
  Modelled from the spec: the invariants section 3 states for the missing class. The check-valve names are exactly
  the names of the registered pipes whose status is \<^verbatim>\<open>CV\<close>; the edges of the graph are exactly
  the triples of start node, end node and name of the registered links; every edge joins
  registered nodes.
\<close>

definition cv_pipes :: "WaterNetworkModel \<Rightarrow> string set" where
  "cv_pipes wn = {n. \<exists>l. map_of (links wn) n = Some l \<and> is_pipe l \<and> base_status l = ''CV''}"

definition link_edges :: "WaterNetworkModel \<Rightarrow> (string \<times> string \<times> string) set" where
  "link_edges wn = {e. \<exists>l. map_of (links wn) (snd (snd e)) = Some l \<and>
                          fst e = start_node l \<and> fst (snd e) = end_node l}"

definition model_invariant :: "WaterNetworkModel \<Rightarrow> bool" where
  "model_invariant wn \<longleftrightarrow>
     set (check_valves wn) = cv_pipes wn \<and>
     set (graph_edges wn) = link_edges wn \<and>
     (\<forall>e\<in>set (graph_edges wn). has_node wn (fst e) \<and> has_node wn (fst (snd e)))"

subsection \<open>The networks the tests build\<close>

text \<open>
  Modelled from the spec: histories of the missing class as the tests build them. A
  root-finder that never converges stands in for the numerical one where a history has no
  three-point curve. The networks are those of \<^verbatim>\<open>test_add_pipe_with_cv\<close> (two
  junctions) and of \<^verbatim>\<open>test_get_links_for_node\<close> (five junctions and four pipes).
\<close>

definition no_solver :: "(real \<times> real) list \<Rightarrow> net_error + real \<times> real \<times> real" where
  "no_solver pts = Inl ConvergenceError"

definition j1_j2 :: WaterNetworkModel where
  "j1_j2 = run no_solver empty_model
     [AddJunction ''j1'' (IntNum 0) None (IntNum 0), AddJunction ''j2'' (IntNum 0) None (IntNum 0)]"

definition test_net :: WaterNetworkModel where
  "test_net = run no_solver empty_model
     [AddJunction ''j1'' (IntNum 0) None (IntNum 0),
      AddJunction ''j2'' (IntNum 0) None (IntNum 0),
      AddJunction ''j3'' (IntNum 0) None (IntNum 0),
      AddJunction ''j4'' (IntNum 0) None (IntNum 0),
      AddJunction ''j5'' (IntNum 0) None (IntNum 0),
      AddPipe ''p1'' ''j1'' ''j2'' (IntNum 1000) (IntNum 1) (IntNum 100) (IntNum 0) ''Open'',
      AddPipe ''p2'' ''j1'' ''j4'' (IntNum 1000) (IntNum 1) (IntNum 100) (IntNum 0) ''Open'',
      AddPipe ''p3'' ''j1'' ''j5'' (IntNum 1000) (IntNum 1) (IntNum 100) (IntNum 0) ''Open'',
      AddPipe ''p4'' ''j3'' ''j2'' (IntNum 1000) (IntNum 1) (IntNum 100) (IntNum 0) ''Open'']"


section \<open>Properties of the simulation results\<close>

subsection \<open>The elementwise operators\<close>

lemma bind_err_simps [simp]:
  "bind_err (Inl e) f = Inl e"
  "bind_err (Inr x) f = f x"
  by (simp_all add: bind_err_def)

lemma getitem_Some: "map_of d k = Some v \<Longrightarrow> getitem d k = Inr v"
  by (simp add: getitem_def)

lemma keys_iff: "k \<in> set (keys d) \<longleftrightarrow> map_of d k \<noteq> None"
  by (simp add: keys_def map_of_eq_None_iff)

lemma contains_keys: "contains k d \<longleftrightarrow> k \<in> set (keys d)"
  by (simp add: contains_def keys_iff)

lemma getitem_keys: "k \<in> set (keys d) \<Longrightarrow> \<exists>v. getitem d k = Inr v \<and> map_of d k = Some v"
  unfolding keys_def getitem_def
  by (cases "map_of d k") (auto simp: map_of_eq_None_iff)

lemma combine_keys_ok:
  "set ks \<subseteq> set (keys s) \<Longrightarrow> \<exists>r. combine_keys f ks s t new = Inr r \<and>
     (\<forall>k. map_of r k = (if k \<in> set ks \<and> contains k t then both f s t k else map_of new k))"
proof (induction ks arbitrary: new)
  case Nil
  then show ?case by simp
next
  case (Cons k ks)
  from Cons.prems obtain x where x: "getitem s k = Inr x" "map_of s k = Some x"
    using getitem_keys [of k s] by auto
  show ?case
  proof (cases "contains k t")
    case True
    then obtain y where y: "map_of t k = Some y" by (auto simp: contains_def)
    from Cons.IH [of "AList.update k (f x y) new"] Cons.prems
    obtain r where r: "combine_keys f ks s t (AList.update k (f x y) new) = Inr r"
      "\<forall>k'. map_of r k' = (if k' \<in> set ks \<and> contains k' t then both f s t k'
         else map_of (AList.update k (f x y) new) k')" by auto
    show ?thesis using True x y r
      by (auto simp: getitem_Some update_conv' both_def)
  next
    case False
    from Cons.IH [of new] Cons.prems
    obtain r where r: "combine_keys f ks s t new = Inr r"
      "\<forall>k'. map_of r k' = (if k' \<in> set ks \<and> contains k' t then both f s t k'
         else map_of new k')" by auto
    show ?thesis using False r by auto
  qed
qed

lemma combine_keys_all:
  "\<exists>r. combine_keys f (keys s) s t [] = Inr r \<and> (\<forall>k. map_of r k = both f s t k)"
proof -
  from combine_keys_ok [of "keys s" s f t "[]"]
  obtain r where r: "combine_keys f (keys s) s t [] = Inr r"
    "\<forall>k. map_of r k = (if k \<in> set (keys s) \<and> contains k t then both f s t k else map_of [] k)"
    by auto
  have "map_of r k = both f s t k" for k
    using r(2) by (simp add: both_def contains_def keys_iff split: option.splits)
  with r(1) show ?thesis by blast
qed

text \<open>
  Claim C4. For every pair of results objects \<open>A\<close> and \<open>B\<close>, each of \<^verbatim>\<open>A + B\<close>, \<^verbatim>\<open>A - B\<close> and
  \<^verbatim>\<open>A / B\<close> returns a new object without raising. Its \<^verbatim>\<open>link\<close> and \<^verbatim>\<open>node\<close> dictionaries hold
  exactly the keys that both operands have, each mapped to the frame combination of
  \<open>A\<close>'s and \<open>B\<close>'s frames for that key; a key missing from either operand is absent from
  the result.
\<close>

theorem elementwise_operators_common_keys:
  "(\<exists>C. results_add frame_add now A (Results B) = Inr C \<and>
        (\<forall>k. map_of (link C) k = both frame_add (link A) (link B) k) \<and>
        (\<forall>k. map_of (node C) k = both frame_add (node A) (node B) k)) \<and>
   (\<exists>C. results_sub frame_sub now A (Results B) = Inr C \<and>
        (\<forall>k. map_of (link C) k = both frame_sub (link A) (link B) k) \<and>
        (\<forall>k. map_of (node C) k = both frame_sub (node A) (node B) k)) \<and>
   (\<exists>C. results_truediv frame_div frame_div_int now A (Results B) = Inr C \<and>
        (\<forall>k. map_of (link C) k = both frame_div (link A) (link B) k) \<and>
        (\<forall>k. map_of (node C) k = both frame_div (node A) (node B) k))"
proof -
  have loops: "\<exists>l n. combine_keys f (keys (link A)) (link A) (link B) [] = Inr l \<and>
      (\<forall>k. map_of l k = both f (link A) (link B) k) \<and>
      combine_keys f (keys (node A)) (node A) (node B) [] = Inr n \<and>
      (\<forall>k. map_of n k = both f (node A) (node B) k)" for f
    using combine_keys_all [of f "link A" "link B"] combine_keys_all [of f "node A" "node B"]
    by blast
  from loops [of frame_add] have "\<exists>C. results_add frame_add now A (Results B) = Inr C \<and>
        (\<forall>k. map_of (link C) k = both frame_add (link A) (link B) k) \<and>
        (\<forall>k. map_of (node C) k = both frame_add (node A) (node B) k)"
    by (auto simp: results_add_def)
  moreover
  from loops [of frame_sub] have "\<exists>C. results_sub frame_sub now A (Results B) = Inr C \<and>
        (\<forall>k. map_of (link C) k = both frame_sub (link A) (link B) k) \<and>
        (\<forall>k. map_of (node C) k = both frame_sub (node A) (node B) k)"
    by (auto simp: results_sub_def)
  moreover
  from loops [of frame_div]
  have "\<exists>C. results_truediv frame_div frame_div_int now A (Results B) = Inr C \<and>
        (\<forall>k. map_of (link C) k = both frame_div (link A) (link B) k) \<and>
        (\<forall>k. map_of (node C) k = both frame_div (node A) (node B) k)"
    by (auto simp: results_truediv_def)
  ultimately show ?thesis by blast
qed

theorem elementwise_operators_common_keys_witness:
  "\<exists>C. results_add rows_add ''now'' A_ex (Results C_ex) = Inr C \<and>
       map_of (link C) ''velocity'' = Some (Frame [''p1''] [(0, [Num 6]), (25, [Num 7]), (50, [Num 8]), (75, [Num 9])]) \<and>
       map_of (link C) ''flowrate'' = None \<and>
       map_of (node C) ''head'' = Some (Frame [''j1''] [(0, [Num 20]), (25, [Num 40]), (50, [Num 60]), (75, [Num 80])])"
proof -
  from elementwise_operators_common_keys
    [where frame_add = rows_add and now = "''now''" and A = A_ex and B = C_ex]
  obtain C where C: "results_add rows_add ''now'' A_ex (Results C_ex) = Inr C"
    "\<forall>k. map_of (link C) k = both rows_add (link A_ex) (link C_ex) k"
    "\<forall>k. map_of (node C) k = both rows_add (node A_ex) (node C_ex) k"
    by blast
  from C(2,3) have "map_of (link C) ''velocity'' = Some (Frame [''p1''] [(0, [Num 6]), (25, [Num 7]), (50, [Num 8]), (75, [Num 9])])"
    "map_of (link C) ''flowrate'' = None"
    "map_of (node C) ''head'' = Some (Frame [''j1''] [(0, [Num 20]), (25, [Num 40]), (50, [Num 60]), (75, [Num 80])])"
    by (simp_all add: both_def rows_add_def A_ex_def C_ex_def)
  with C(1) show ?thesis by blast
qed

text \<open>
  Claim C3. For every results object \<open>A\<close> and every operand \<open>x\<close> that is not a results object,
  \<^verbatim>\<open>A + x\<close> and \<^verbatim>\<open>A - x\<close> raise the operand-type error (the exception class the source uses
  for it is \<^verbatim>\<open>ValueError\<close>), and \<^verbatim>\<open>A / x\<close> raises it whenever \<open>x\<close> is in addition not an
  instance of \<^verbatim>\<open>int\<close>. No operand is coerced.
\<close>

theorem operators_reject_other_operands:
  "\<not> isinstance_SimulationResults x \<Longrightarrow>
     results_add frame_add now A x = Inl ValueError \<and>
     results_sub frame_sub now A x = Inl ValueError \<and>
     (\<not> isinstance_int x \<longrightarrow>
        results_truediv frame_div frame_div_int now A x = Inl ValueError)"
  by (cases x) (simp_all add: results_add_def results_sub_def results_truediv_def)

theorem operators_reject_other_operands_witness:
  "\<not> isinstance_SimulationResults (PyFloat 2) \<and> \<not> isinstance_int (PyFloat 2) \<and>
   results_add rows_add ''now'' A_ex (PyFloat 2) = Inl ValueError \<and>
   results_sub rows_add ''now'' A_ex (PyFloat 2) = Inl ValueError \<and>
   results_truediv rows_add (\<lambda>x n. x) ''now'' A_ex (PyFloat 2) = Inl ValueError"
  using operators_reject_other_operands
    [where x = "PyFloat 2" and frame_add = rows_add and frame_sub = rows_add and
      frame_div = rows_add and frame_div_int = "\<lambda>x n. x" and now = "''now''" and A = A_ex]
  by simp

lemma append_results_from_unfold:
  assumes "map_of (node A) ''head'' = Some ha"
    and "map_of (node B) ''head'' = Some (Frame cb ((t0, r0) # hb))"
  shows "append_results_from p A (Results B) = merge_results p (keep_mask ha t0) A B"
  using assms by (simp add: append_results_from_def getitem_def first_index_def)

subsection \<open>The placeholders for the keys of one object only\<close>

text \<open>
  The placeholder of a key that only one object has is the template frame times
  \<^verbatim>\<open>pd.nan\<close> (lines 234, 239, 247 and 252). The lemmas below follow the loops when the pandas
  namespace has no attribute \<^verbatim>\<open>nan\<close>: the loop over the own keys stops at the first key the
  other object lacks, and the loop over the other object's keys stops at the first key
  that is new.
\<close>

lemma own_body_without_nan:
  assumes "merge_own_key None tmpl keep other k d = Inr d1"
  shows "contains k other \<and> contains k d \<and> (\<exists>v. d1 = AList.update k v d)"
  using assms
  by (auto simp: merge_own_key_def contains_def getitem_def times_pd_nan_def bind_err_def
      split: if_splits option.splits sum.splits)

lemma own_loop_without_nan:
  "for_keys (merge_own_key None tmpl keep other) ks d = (d', e) \<Longrightarrow>
     (\<forall>k. \<not> contains k other \<longrightarrow> map_of d' k = map_of d k) \<and>
     (\<forall>k. contains k d' \<longleftrightarrow> contains k d) \<and>
     (e = None \<longrightarrow> (\<forall>k\<in>set ks. contains k other))"
proof (induction ks arbitrary: d)
  case Nil
  then show ?case by simp
next
  case (Cons a ks)
  show ?case
  proof (cases "merge_own_key None tmpl keep other a d")
    case (Inl x)
    with Cons.prems show ?thesis by auto
  next
    case (Inr d1)
    from own_body_without_nan [OF Inr] obtain v where a: "contains a other" "contains a d"
      and d1: "d1 = AList.update a v d" by blast
    from Inr Cons.prems have "for_keys (merge_own_key None tmpl keep other) ks d1 = (d', e)"
      by simp
    from Cons.IH [OF this]
    have ih: "\<forall>k. \<not> contains k other \<longrightarrow> map_of d' k = map_of d1 k"
      "\<forall>k. contains k d' \<longleftrightarrow> contains k d1"
      "e = None \<longrightarrow> (\<forall>k\<in>set ks. contains k other)" by blast+
    have "map_of d1 k = map_of d k" if "\<not> contains k other" for k
      using that a(1) by (auto simp: d1 update_conv')
    moreover have "contains k d1 \<longleftrightarrow> contains k d" for k
      using a(2) by (auto simp: d1 update_conv' contains_def)
    ultimately show ?thesis using ih a(1) by simp
  qed
qed

lemma other_body_without_nan:
  "merge_other_key None tmpl keep other k d = (if contains k d then Inr d
     else (case map_of d tmpl of None \<Rightarrow> Inl KeyError | Some tf \<Rightarrow> Inl AttributeError))"
  by (simp add: merge_other_key_def getitem_def times_pd_nan_def split: option.splits)

lemma other_loop_without_nan:
  "for_keys (merge_other_key None tmpl keep other) ks d = (d', e) \<Longrightarrow>
     d' = d \<and> (e = None \<longrightarrow> (\<forall>k\<in>set ks. contains k d))"
  by (induction ks) (auto simp: other_body_without_nan split: if_splits option.splits)

lemma merge_frames_without_nan:
  assumes "merge_frames None tmpl keep own other = (d', e)"
  shows "(\<forall>k. \<not> contains k other \<longrightarrow> map_of d' k = map_of own k) \<and>
         (\<forall>k. contains k d' \<longleftrightarrow> contains k own) \<and>
         (e = None \<longrightarrow> (\<forall>k. contains k own \<longleftrightarrow> contains k other))"
proof -
  obtain d1 e1 where own: "for_keys (merge_own_key None tmpl keep other) (keys own) own = (d1, e1)"
    by (cases "for_keys (merge_own_key None tmpl keep other) (keys own) own")
  note o = own_loop_without_nan [OF own]
  show ?thesis
  proof (cases e1)
    case (Some x)
    with own assms have "d' = d1" "e = Some x" by (simp_all add: merge_frames_def)
    with o show ?thesis by simp
  next
    case None
    with own assms
    have oth: "for_keys (merge_other_key None tmpl keep other) (keys other) d1 = (d', e)"
      by (simp add: merge_frames_def)
    from other_loop_without_nan [OF oth]
    have d': "d' = d1" and all: "e = None \<longrightarrow> (\<forall>k\<in>set (keys other). contains k d1)" by blast+
    from o None have sub: "\<forall>k\<in>set (keys own). contains k other" by simp
    have "contains k own \<longleftrightarrow> contains k other" if "e = None" for k
      using that all sub o by (auto simp: contains_keys)
    with o d' show ?thesis by simp
  qed
qed

lemma merge_results_without_nan:
  assumes "merge_results None keep A B = (A', e)"
  shows "(\<forall>k. \<not> contains k (link B) \<longrightarrow> map_of (link A') k = map_of (link A) k) \<and>
         (\<forall>k. contains k (link A') \<longleftrightarrow> contains k (link A)) \<and>
         (\<forall>k. \<not> contains k (node B) \<longrightarrow> map_of (node A') k = map_of (node A) k) \<and>
         (\<forall>k. contains k (node A') \<longleftrightarrow> contains k (node A)) \<and>
         (e = None \<longrightarrow> (\<forall>k. contains k (link A) \<longleftrightarrow> contains k (link B)) \<and>
                        (\<forall>k. contains k (node A) \<longleftrightarrow> contains k (node B)))"
proof -
  obtain l e1 where l: "merge_frames None ''flowrate'' keep (link A) (link B) = (l, e1)"
    by (cases "merge_frames None ''flowrate'' keep (link A) (link B)")
  note fl = merge_frames_without_nan [OF l]
  show ?thesis
  proof (cases e1)
    case (Some x)
    with l assms have "A' = A\<lparr>link := l\<rparr>" "e = Some x" by (simp_all add: merge_results_def)
    with fl show ?thesis by simp
  next
    case None
    obtain n e2 where n: "merge_frames None ''head'' keep (node A) (node B) = (n, e2)"
      by (cases "merge_frames None ''head'' keep (node A) (node B)")
    note fn = merge_frames_without_nan [OF n]
    from None l n assms have "A' = A\<lparr>link := l, node := n\<rparr>" "e = e2"
      by (simp_all add: merge_results_def)
    with fl fn None show ?thesis by simp
  qed
qed

lemma append_results_from_cases:
  "(\<exists>e0. append_results_from p A (Results B) = (A, Some e0)) \<or>
   (\<exists>keep. append_results_from p A (Results B) = merge_results p keep A B)"
  by (auto simp: append_results_from_def split: sum.splits)

text \<open>
  Claim C2. The claim has every key of one object only filled with a NaN placeholder and
  the call never failing. With the pandas namespace as it is, without the attribute
  \<^verbatim>\<open>nan\<close>, the code stores no placeholder at all: whatever the call returns or raises, a key
  that only \<open>A\<close> has keeps \<open>A\<close>'s frame, a key that only \<open>B\<close> has is not entered, and the call
  raises whenever the key sets of the two objects differ, in \<^verbatim>\<open>link\<close> or in \<^verbatim>\<open>node\<close>.
\<close>

theorem append_results_from_never_fills:
  assumes "append_results_from None A (Results B) = (A', e)"
  shows "(\<forall>k. \<not> contains k (link B) \<longrightarrow> map_of (link A') k = map_of (link A) k) \<and>
         (\<forall>k. \<not> contains k (link A) \<longrightarrow> \<not> contains k (link A')) \<and>
         (\<forall>k. \<not> contains k (node B) \<longrightarrow> map_of (node A') k = map_of (node A) k) \<and>
         (\<forall>k. \<not> contains k (node A) \<longrightarrow> \<not> contains k (node A')) \<and>
         ((\<exists>k. contains k (link A) \<noteq> contains k (link B)) \<or>
          (\<exists>k. contains k (node A) \<noteq> contains k (node B)) \<longrightarrow> e \<noteq> None)"
proof -
  from append_results_from_cases [of None A B]
  consider e0 where "append_results_from None A (Results B) = (A, Some e0)"
    | keep where "append_results_from None A (Results B) = merge_results None keep A B"
    by blast
  then show ?thesis
  proof cases
    case 1
    with assms have "A' = A" "e = Some e0" by simp_all
    then show ?thesis by simp
  next
    case 2
    with assms have "merge_results None keep A B = (A', e)" by simp
    from merge_results_without_nan [OF this] show ?thesis by blast
  qed
qed

lemma append_ex_without_pd_nan:
  "append_results_from None A_ex (Results B_ex) = (partial_ex, Some AttributeError)"
  by (simp add: partial_ex_def append_results_from_def merge_results_def merge_frames_def
      merge_own_key_def getitem_def contains_def first_index_def keep_mask_def loc_def
      frame_append_def times_pd_nan_def keys_def A_ex_def B_ex_def)

theorem append_results_from_never_fills_witness:
  "append_results_from None A_ex (Results B_ex) = (partial_ex, Some AttributeError) \<and>
   contains ''velocity'' (link A_ex) \<and> \<not> contains ''velocity'' (link B_ex) \<and>
   contains ''pressure'' (node A_ex) \<and> \<not> contains ''pressure'' (node B_ex) \<and>
   map_of (link partial_ex) ''velocity'' = map_of (link A_ex) ''velocity'' \<and>
   map_of (node partial_ex) ''pressure'' = map_of (node A_ex) ''pressure'' \<and>
   Some AttributeError \<noteq> (None :: error option)"
proof -
  have k: "contains ''velocity'' (link A_ex)" "\<not> contains ''velocity'' (link B_ex)"
    "contains ''pressure'' (node A_ex)" "\<not> contains ''pressure'' (node B_ex)"
    by (simp_all add: contains_def A_ex_def B_ex_def)
  from append_results_from_never_fills [OF append_ex_without_pd_nan] k
  have "map_of (link partial_ex) ''velocity'' = map_of (link A_ex) ''velocity''"
    "map_of (node partial_ex) ''pressure'' = map_of (node A_ex) ''pressure''"
    "Some AttributeError \<noteq> (None :: error option)"
    by blast+
  with append_ex_without_pd_nan k show ?thesis by blast
qed

text \<open>
  Claim C1. The claim has every key of both objects hold \<open>A\<close>'s rows below the first
  timestamp of \<open>B\<close>'s \<^verbatim>\<open>'head'\<close> series followed by \<open>B\<close>'s rows. On the two example runs, whose
  times overlap from 50 on, and with the pandas namespace as it is, without the attribute
  \<^verbatim>\<open>nan\<close>, the call raises \<^verbatim>\<open>AttributeError\<close> in the link loop at \<^verbatim>\<open>'velocity'\<close>, which only the
  first run has; the node loops never run, and \<^verbatim>\<open>'head'\<close>, a key of both runs, keeps the
  four rows of the first run where the claim expects the six rows of the splice.
\<close>

theorem append_results_from_leaves_head_unmerged:
  "append_results_from None A_ex (Results B_ex) = (partial_ex, Some AttributeError) \<and>
   map_of (node A_ex) ''head'' =
     Some (Frame [''j1''] [(0, [Num 10]), (25, [Num 20]), (50, [Num 30]), (75, [Num 40])]) \<and>
   map_of (node B_ex) ''head'' =
     Some (Frame [''j1''] [(50, [Num 35]), (75, [Num 45]), (100, [Num 55]), (125, [Num 65])]) \<and>
   map_of (node partial_ex) ''head'' =
     Some (Frame [''j1''] [(0, [Num 10]), (25, [Num 20]), (50, [Num 30]), (75, [Num 40])]) \<and>
   splice 50 (Frame [''j1''] [(0, [Num 10]), (25, [Num 20]), (50, [Num 30]), (75, [Num 40])])
             (Frame [''j1''] [(50, [Num 35]), (75, [Num 45]), (100, [Num 55]), (125, [Num 65])]) =
     Frame [''j1''] [(0, [Num 10]), (25, [Num 20]),
                     (50, [Num 35]), (75, [Num 45]), (100, [Num 55]), (125, [Num 65])]"
proof -
  have "map_of (node A_ex) ''head'' =
      Some (Frame [''j1''] [(0, [Num 10]), (25, [Num 20]), (50, [Num 30]), (75, [Num 40])])"
    "map_of (node B_ex) ''head'' =
      Some (Frame [''j1''] [(50, [Num 35]), (75, [Num 45]), (100, [Num 55]), (125, [Num 65])])"
    "map_of (node partial_ex) ''head'' =
      Some (Frame [''j1''] [(0, [Num 10]), (25, [Num 20]), (50, [Num 30]), (75, [Num 40])])"
    by (simp_all add: partial_ex_def A_ex_def B_ex_def)
  moreover have
    "splice 50 (Frame [''j1''] [(0, [Num 10]), (25, [Num 20]), (50, [Num 30]), (75, [Num 40])])
       (Frame [''j1''] [(50, [Num 35]), (75, [Num 45]), (100, [Num 55]), (125, [Num 65])]) =
     Frame [''j1''] [(0, [Num 10]), (25, [Num 20]),
                     (50, [Num 35]), (75, [Num 45]), (100, [Num 55]), (125, [Num 65])]"
    by (simp add: splice_def)
  ultimately show ?thesis using append_ex_without_pd_nan by blast
qed

subsection \<open>The cut time and the mask\<close>

text \<open>
  Claim C10. \<^verbatim>\<open>A.append_results_from(B)\<close> needs the key \<^verbatim>\<open>'head'\<close> in both node dictionaries.
  When it is absent from either, the call raises a lookup error (\<^verbatim>\<open>KeyError\<close>, or
  \<^verbatim>\<open>IndexError\<close> when \<open>B\<close>'s series has no rows) and leaves \<open>A\<close> as it was; when it is absent
  from \<open>B\<close> the error is \<^verbatim>\<open>KeyError\<close>. When both are present, the loops run with the mask
  that marks the rows of \<open>A\<close>'s \<^verbatim>\<open>'head'\<close> series whose time is below the first index value of
  \<open>B\<close>'s \<^verbatim>\<open>'head'\<close> series.
\<close>

theorem append_results_from_requires_head:
  "(map_of (node A) ''head'' = None \<or> map_of (node B) ''head'' = None \<longrightarrow>
      (\<exists>e. append_results_from pd_nan A (Results B) = (A, Some e) \<and> is_lookup_error e)) \<and>
   (map_of (node B) ''head'' = None \<longrightarrow>
      append_results_from pd_nan A (Results B) = (A, Some KeyError)) \<and>
   (\<forall>ha cb t0 r0 hb.
      map_of (node A) ''head'' = Some ha \<and>
      map_of (node B) ''head'' = Some (Frame cb ((t0, r0) # hb)) \<longrightarrow>
      append_results_from pd_nan A (Results B) =
        merge_results pd_nan (map (\<lambda>r. fst r < t0) (rows ha)) A B)"
proof -
  have none_b: "append_results_from pd_nan A (Results B) = (A, Some KeyError)"
    if "map_of (node B) ''head'' = None"
    using that by (simp add: append_results_from_def getitem_def)
  have none_a: "\<exists>e. append_results_from pd_nan A (Results B) = (A, Some e) \<and> is_lookup_error e"
    if a: "map_of (node A) ''head'' = None"
  proof (cases "map_of (node B) ''head''")
    case None
    from none_b [OF this] show ?thesis by simp
  next
    case (Some h)
    then show ?thesis using a
      by (cases "rows h") (simp_all add: append_results_from_def getitem_def first_index_def)
  qed
  have both: "append_results_from pd_nan A (Results B) =
        merge_results pd_nan (map (\<lambda>r. fst r < t0) (rows ha)) A B"
    if "map_of (node A) ''head'' = Some ha"
      "map_of (node B) ''head'' = Some (Frame cb ((t0, r0) # hb))"
    for ha cb t0 r0 hb
    using append_results_from_unfold [OF that] by (simp add: keep_mask_def)
  from none_a none_b both show ?thesis by (metis is_lookup_error.simps(1))
qed

theorem append_results_from_requires_head_witness:
  "map_of (node (B_ex\<lparr>node := []\<rparr>)) ''head'' = None \<and>
   append_results_from (Some NaN) A_ex (Results (B_ex\<lparr>node := []\<rparr>)) = (A_ex, Some KeyError) \<and>
   map_of (node (A_ex\<lparr>node := []\<rparr>)) ''head'' = None \<and>
   (\<exists>e. append_results_from (Some NaN) (A_ex\<lparr>node := []\<rparr>) (Results B_ex) =
          (A_ex\<lparr>node := []\<rparr>, Some e) \<and> is_lookup_error e)"
  using append_results_from_requires_head
    [where A = A_ex and B = "B_ex\<lparr>node := []\<rparr>" and pd_nan = "Some NaN"]
    append_results_from_requires_head
    [where A = "A_ex\<lparr>node := []\<rparr>" and B = B_ex and pd_nan = "Some NaN"]
  by simp

subsection \<open>Objects with the same keys\<close>

text \<open>
  Where no placeholder is due the merge is the one the docstring describes. For
  time-ordered objects with the same keys and, key by key, the same columns, the call
  returns whatever \<^verbatim>\<open>pd.nan\<close> is, and every key stores the rows of \<open>A\<close> below the first
  timestamp of \<open>B\<close>'s \<^verbatim>\<open>'head'\<close> series followed by the rows of \<open>B\<close>, without a repeated
  timestamp.
\<close>

lemma filter_mask_aligned:
  "map fst a = map fst h \<Longrightarrow>
     map snd (filter fst (zip (map (\<lambda>r. fst r < t) h) a)) = filter (\<lambda>r. fst r < (t::int)) a"
proof (induction a arbitrary: h)
  case Nil
  then show ?case by simp
next
  case (Cons x a)
  then obtain y h' where h: "h = y # h'" by (cases h) auto
  with Cons show ?case by auto
qed

lemma loc_aligned:
  assumes "map fst (rows a) = map fst (rows h)"
  shows "loc a (keep_mask h t) = Inr (Frame (columns a) (filter (\<lambda>r. fst r < t) (rows a)))"
proof -
  have "length (rows a) = length (rows h)" using assms by (rule map_eq_imp_length_eq)
  then show ?thesis
    using filter_mask_aligned [OF assms] by (simp add: loc_def keep_mask_def)
qed

lemma merge_own_key_common:
  assumes "map_of d k = Some a" and "map_of other k = Some b"
    and "map fst (rows a) = map fst (rows h)" and "columns a = columns b"
  shows "merge_own_key p tmpl (keep_mask h t) other k d = Inr (AList.update k (splice t a b) d)"
  using assms loc_aligned [OF assms(3), of t]
  by (simp add: merge_own_key_def contains_def getitem_def frame_append_def splice_def)

lemma own_loop_common:
  "distinct ks \<Longrightarrow>
   (\<forall>k\<in>set ks. \<exists>a b. map_of d k = Some a \<and> map_of other k = Some b \<and>
      map fst (rows a) = map fst (rows h) \<and> columns a = columns b) \<Longrightarrow>
   \<exists>d'. for_keys (merge_own_key p tmpl (keep_mask h t) other) ks d = (d', None) \<and>
        (\<forall>k. k \<notin> set ks \<longrightarrow> map_of d' k = map_of d k) \<and>
        (\<forall>k a b. k \<in> set ks \<and> map_of d k = Some a \<and> map_of other k = Some b \<longrightarrow>
           map_of d' k = Some (splice t a b))"
proof (induction ks arbitrary: d)
  case Nil
  then show ?case by simp
next
  case (Cons x ks)
  from Cons.prems(2) obtain a b where ab: "map_of d x = Some a" "map_of other x = Some b"
    "map fst (rows a) = map fst (rows h)" "columns a = columns b" by auto
  let ?d1 = "AList.update x (splice t a b) d"
  have step: "merge_own_key p tmpl (keep_mask h t) other x d = Inr ?d1"
    using ab by (rule merge_own_key_common)
  from Cons.prems(1) have x: "x \<notin> set ks" and dist: "distinct ks" by simp_all
  have same: "map_of ?d1 k = map_of d k" if "k \<noteq> x" for k
    using that by (simp add: update_conv')
  have "\<forall>k\<in>set ks. \<exists>a b. map_of ?d1 k = Some a \<and> map_of other k = Some b \<and>
      map fst (rows a) = map fst (rows h) \<and> columns a = columns b"
  proof
    fix k assume k: "k \<in> set ks"
    with x have "k \<noteq> x" by auto
    from same [OF this] Cons.prems(2) k
    show "\<exists>a b. map_of ?d1 k = Some a \<and> map_of other k = Some b \<and>
      map fst (rows a) = map fst (rows h) \<and> columns a = columns b" by simp
  qed
  from Cons.IH [OF dist this]
  obtain d' where run: "for_keys (merge_own_key p tmpl (keep_mask h t) other) ks ?d1 = (d', None)"
    and out: "\<forall>k. k \<notin> set ks \<longrightarrow> map_of d' k = map_of ?d1 k"
    and inn: "\<forall>k a b. k \<in> set ks \<and> map_of ?d1 k = Some a \<and> map_of other k = Some b \<longrightarrow>
        map_of d' k = Some (splice t a b)"
    by blast
  have 1: "for_keys (merge_own_key p tmpl (keep_mask h t) other) (x # ks) d = (d', None)"
    using step run by simp
  have 2: "map_of d' k = map_of d k" if "k \<notin> set (x # ks)" for k
    using that out same by simp
  have 3: "map_of d' k = Some (splice t a' b')"
    if "k \<in> set (x # ks)" "map_of d k = Some a'" "map_of other k = Some b'" for k a' b'
  proof (cases "k = x")
    case True
    with x out have "map_of d' k = map_of ?d1 x" by simp
    with True that ab show ?thesis by (simp add: update_conv')
  next
    case False
    with that same inn show ?thesis by simp
  qed
  from 1 2 3 show ?case by blast
qed

lemma other_loop_noop:
  "\<forall>k\<in>set ks. contains k d \<Longrightarrow> for_keys (merge_other_key p tmpl keep other) ks d = (d, None)"
  by (induction ks) (auto simp: merge_other_key_def)

lemma merge_frames_common:
  assumes d: "distinct (keys own)"
    and al: "\<forall>k a. map_of own k = Some a \<longrightarrow> map fst (rows a) = map fst (rows h)"
    and ks: "\<forall>k. contains k own \<longleftrightarrow> contains k other"
    and cols: "\<forall>k a b. map_of own k = Some a \<and> map_of other k = Some b \<longrightarrow> columns a = columns b"
  shows "\<exists>d'. merge_frames p tmpl (keep_mask h t) own other = (d', None) \<and>
           (\<forall>k a b. map_of own k = Some a \<and> map_of other k = Some b \<longrightarrow>
              map_of d' k = Some (splice t a b))"
proof -
  have pre: "\<forall>k\<in>set (keys own). \<exists>a b. map_of own k = Some a \<and> map_of other k = Some b \<and>
      map fst (rows a) = map fst (rows h) \<and> columns a = columns b"
  proof
    fix k assume "k \<in> set (keys own)"
    then have "contains k own" by (simp add: contains_keys)
    with ks have "contains k other" by simp
    with \<open>contains k own\<close> obtain a b where "map_of own k = Some a" "map_of other k = Some b"
      by (auto simp: contains_def)
    with al cols show "\<exists>a b. map_of own k = Some a \<and> map_of other k = Some b \<and>
      map fst (rows a) = map fst (rows h) \<and> columns a = columns b" by blast
  qed
  from own_loop_common [OF d pre, of p tmpl t]
  obtain d1 where own: "for_keys (merge_own_key p tmpl (keep_mask h t) other) (keys own) own = (d1, None)"
    and out: "\<forall>k. k \<notin> set (keys own) \<longrightarrow> map_of d1 k = map_of own k"
    and inn: "\<forall>k a b. k \<in> set (keys own) \<and> map_of own k = Some a \<and> map_of other k = Some b \<longrightarrow>
        map_of d1 k = Some (splice t a b)"
    by blast
  have "contains k d1" if "k \<in> set (keys other)" for k
  proof -
    from that ks have "contains k own" "contains k other" by (simp_all add: contains_keys)
    then obtain a b where ab: "map_of own k = Some a" "map_of other k = Some b"
      by (auto simp: contains_def)
    with \<open>contains k own\<close> inn have "map_of d1 k = Some (splice t a b)"
      by (simp add: contains_keys)
    then show ?thesis by (simp add: contains_def)
  qed
  then have "for_keys (merge_other_key p tmpl (keep_mask h t) other) (keys other) d1 = (d1, None)"
    by (intro other_loop_noop) simp
  with own have run: "merge_frames p tmpl (keep_mask h t) own other = (d1, None)"
    by (simp add: merge_frames_def)
  have "map_of d1 k = Some (splice t a b)"
    if "map_of own k = Some a" "map_of other k = Some b" for k a b
  proof -
    from that(1) have "k \<in> set (keys own)" by (simp add: keys_iff)
    with inn that show ?thesis by blast
  qed
  with run show ?thesis by blast
qed

lemma sorted_wrt_less_hd:
  "sorted_wrt (<) (xs::int list) \<Longrightarrow> x \<in> set xs \<Longrightarrow> hd xs \<le> x"
  by (cases xs) auto

lemma splice_rows_distinct:
  fixes a b :: "row list"
  assumes "sorted_wrt (<) (map fst a)" and "sorted_wrt (<) (map fst b)" and "b \<noteq> []"
  shows "distinct (map fst (filter (\<lambda>r. fst r < fst (hd b)) a @ b))"
proof -
  have da: "distinct (map fst a)" and db: "distinct (map fst b)"
    using assms(1,2) strict_sorted_iff by blast+
  have "hd (map fst b) \<le> x" if "x \<in> set (map fst b)" for x
    using sorted_wrt_less_hd [OF assms(2) that] .
  then have ge: "fst (hd b) \<le> fst r" if "r \<in> set b" for r
    using that assms(3) by (simp add: hd_map)
  have "fst ` set (filter (\<lambda>r. fst r < fst (hd b)) a) \<inter> fst ` set b = {}"
    using ge by fastforce
  moreover have "distinct (map fst (filter (\<lambda>r. fst r < fst (hd b)) a))"
    using da by (simp add: distinct_map_filter)
  ultimately show ?thesis using db by simp
qed

lemma map_of_filter_fst:
  "map_of (filter (\<lambda>r. P (fst r)) a) u = (if P u then map_of a u else None)"
  by (induction a) auto

lemma splice_rows_lookup:
  fixes a b :: "row list"
  assumes "sorted_wrt (<) (map fst b)" and "b \<noteq> []"
  shows "map_of (filter (\<lambda>r. fst r < fst (hd b)) a @ b) u =
           (if u < fst (hd b) then map_of a u else map_of b u)"
proof -
  have "hd (map fst b) \<le> x" if "x \<in> set (map fst b)" for x
    using sorted_wrt_less_hd [OF assms(1) that] .
  then have ge: "fst (hd b) \<le> fst r" if "r \<in> set b" for r
    using that assms(2) by (simp add: hd_map)
  have nb: "map_of b u = None" if "u < fst (hd b)"
    using that ge by (fastforce simp: map_of_eq_None_iff)
  show ?thesis
    using nb map_of_filter_fst [of "\<lambda>x. x < fst (hd b)" a u]
    by (auto simp: map_add_def split: option.splits)
qed

lemma time_orderedD:
  assumes "time_ordered R"
  shows "\<exists>h. map_of (node R) ''head'' = Some h \<and> rows h \<noteq> [] \<and>
           sorted_wrt (<) (map fst (rows h)) \<and>
           (\<forall>k f. map_of (link R) k = Some f \<longrightarrow> map fst (rows f) = map fst (rows h)) \<and>
           (\<forall>k f. map_of (node R) k = Some f \<longrightarrow> map fst (rows f) = map fst (rows h)) \<and>
           distinct (keys (link R)) \<and> distinct (keys (node R))"
proof -
  from assms obtain h where h: "map_of (node R) ''head'' = Some h" "rows h \<noteq> []"
    "sorted_wrt (<) (map fst (rows h))"
    "list_all (\<lambda>kf. map fst (rows (snd kf)) = map fst (rows h)) (link R @ node R)"
    "distinct (keys (link R))" "distinct (keys (node R))"
    by (auto simp: time_ordered_def split: option.splits)
  from h(4) have all: "\<forall>kf\<in>set (link R) \<union> set (node R). map fst (rows (snd kf)) = map fst (rows h)"
    by (simp add: list_all_iff)
  have "map fst (rows f) = map fst (rows h)" if "map_of (link R) k = Some f" for k f
  proof -
    from map_of_SomeD [OF that] have "(k, f) \<in> set (link R) \<union> set (node R)" by simp
    with all have "map fst (rows (snd (k, f))) = map fst (rows h)" by (rule bspec)
    then show ?thesis by simp
  qed
  moreover have "map fst (rows f) = map fst (rows h)" if "map_of (node R) k = Some f" for k f
  proof -
    from map_of_SomeD [OF that] have "(k, f) \<in> set (link R) \<union> set (node R)" by simp
    with all have "map fst (rows (snd (k, f))) = map fst (rows h)" by (rule bspec)
    then show ?thesis by simp
  qed
  ultimately show ?thesis using h by blast
qed

lemma append_results_from_same_keys:
  assumes A: "time_ordered A" and B: "time_ordered B"
    and hb: "map_of (node B) ''head'' = Some (Frame cb ((t0, r0) # hb))"
    and kl: "\<forall>k. contains k (link A) \<longleftrightarrow> contains k (link B)"
    and kn: "\<forall>k. contains k (node A) \<longleftrightarrow> contains k (node B)"
    and cl: "\<forall>k a b. map_of (link A) k = Some a \<and> map_of (link B) k = Some b \<longrightarrow>
               columns a = columns b"
    and cn: "\<forall>k a b. map_of (node A) k = Some a \<and> map_of (node B) k = Some b \<longrightarrow>
               columns a = columns b"
  shows "\<exists>A'. append_results_from pd_nan A (Results B) = (A', None) \<and>
           (\<forall>k a b. map_of (link A) k = Some a \<and> map_of (link B) k = Some b \<longrightarrow>
              map_of (link A') k = Some (splice t0 a b) \<and>
              distinct (map fst (rows (splice t0 a b))) \<and>
              (\<forall>t. map_of (rows (splice t0 a b)) t =
                 (if t < t0 then map_of (rows a) t else map_of (rows b) t))) \<and>
           (\<forall>k a b. map_of (node A) k = Some a \<and> map_of (node B) k = Some b \<longrightarrow>
              map_of (node A') k = Some (splice t0 a b) \<and>
              distinct (map fst (rows (splice t0 a b))) \<and>
              (\<forall>t. map_of (rows (splice t0 a b)) t =
                 (if t < t0 then map_of (rows a) t else map_of (rows b) t)))"
proof -
  from time_orderedD [OF A] obtain ha where ha: "map_of (node A) ''head'' = Some ha"
    and sa: "sorted_wrt (<) (map fst (rows ha))"
    and la: "\<forall>k f. map_of (link A) k = Some f \<longrightarrow> map fst (rows f) = map fst (rows ha)"
    and na: "\<forall>k f. map_of (node A) k = Some f \<longrightarrow> map fst (rows f) = map fst (rows ha)"
    and dl: "distinct (keys (link A))" and dn: "distinct (keys (node A))"
    by blast
  from time_orderedD [OF B] hb
  have sb: "sorted_wrt (<) (map fst ((t0, r0) # hb))"
    and lb: "\<forall>k f. map_of (link B) k = Some f \<longrightarrow> map fst (rows f) = map fst ((t0, r0) # hb)"
    and nb: "\<forall>k f. map_of (node B) k = Some f \<longrightarrow> map fst (rows f) = map fst ((t0, r0) # hb)"
    by auto
  from merge_frames_common [OF dl la kl cl, of pd_nan "''flowrate''" t0]
  obtain l where l: "merge_frames pd_nan ''flowrate'' (keep_mask ha t0) (link A) (link B) = (l, None)"
    and ml: "\<forall>k a b. map_of (link A) k = Some a \<and> map_of (link B) k = Some b \<longrightarrow>
        map_of l k = Some (splice t0 a b)"
    by blast
  from merge_frames_common [OF dn na kn cn, of pd_nan "''head''" t0]
  obtain n where n: "merge_frames pd_nan ''head'' (keep_mask ha t0) (node A) (node B) = (n, None)"
    and mn: "\<forall>k a b. map_of (node A) k = Some a \<and> map_of (node B) k = Some b \<longrightarrow>
        map_of n k = Some (splice t0 a b)"
    by blast
  have run: "append_results_from pd_nan A (Results B) = (A\<lparr>link := l, node := n\<rparr>, None)"
    using append_results_from_unfold [OF ha hb] l n by (simp add: merge_results_def)
  have frame: "distinct (map fst (rows (splice t0 a b))) \<and>
      (\<forall>t. map_of (rows (splice t0 a b)) t =
         (if t < t0 then map_of (rows a) t else map_of (rows b) t))"
    if a: "map fst (rows a) = map fst (rows ha)"
      and b: "map fst (rows b) = map fst ((t0, r0) # hb)" for a b
  proof -
    from b have ne: "rows b \<noteq> []" by auto
    with b have t0: "fst (hd (rows b)) = t0" by (cases "rows b") auto
    from sa a have "sorted_wrt (<) (map fst (rows a))" by simp
    moreover from sb b have "sorted_wrt (<) (map fst (rows b))" by simp
    ultimately show ?thesis
      using splice_rows_distinct [of "rows a" "rows b"] splice_rows_lookup [of "rows b" "rows a"]
        ne t0 by (simp add: splice_def)
  qed
  have links: "map_of (link (A\<lparr>link := l, node := n\<rparr>)) k = Some (splice t0 a b) \<and>
      distinct (map fst (rows (splice t0 a b))) \<and>
      (\<forall>t. map_of (rows (splice t0 a b)) t =
         (if t < t0 then map_of (rows a) t else map_of (rows b) t))"
    if ab: "map_of (link A) k = Some a" "map_of (link B) k = Some b" for k a b
  proof -
    from la ab(1) have a: "map fst (rows a) = map fst (rows ha)" by blast
    from lb ab(2) have b: "map fst (rows b) = map fst ((t0, r0) # hb)" by blast
    from ml ab have "map_of (link (A\<lparr>link := l, node := n\<rparr>)) k = Some (splice t0 a b)"
      by simp
    with frame [OF a b] show ?thesis by blast
  qed
  have nodes: "map_of (node (A\<lparr>link := l, node := n\<rparr>)) k = Some (splice t0 a b) \<and>
      distinct (map fst (rows (splice t0 a b))) \<and>
      (\<forall>t. map_of (rows (splice t0 a b)) t =
         (if t < t0 then map_of (rows a) t else map_of (rows b) t))"
    if ab: "map_of (node A) k = Some a" "map_of (node B) k = Some b" for k a b
  proof -
    from na ab(1) have a: "map fst (rows a) = map fst (rows ha)" by blast
    from nb ab(2) have b: "map fst (rows b) = map fst ((t0, r0) # hb)" by blast
    from mn ab have "map_of (node (A\<lparr>link := l, node := n\<rparr>)) k = Some (splice t0 a b)"
      by simp
    with frame [OF a b] show ?thesis by blast
  qed
  from run links nodes show ?thesis by blast
qed

lemma append_ex_same_keys:
  "append_results_from None D_ex (Results B_ex) =
     (D_ex\<lparr>
        link := [(''flowrate'',
                    Frame [''p1''] [(0, [Num 1]), (25, [Num 2]),
                      (50, [Num 31]), (75, [Num 41]), (100, [Num 51]), (125, [Num 61])])],
        node := [(''head'',
                    Frame [''j1''] [(0, [Num 10]), (25, [Num 20]),
                      (50, [Num 35]), (75, [Num 45]), (100, [Num 55]), (125, [Num 65])])]\<rparr>,
      None)"
  by (simp add: append_results_from_def merge_results_def merge_frames_def merge_own_key_def
      merge_other_key_def getitem_def contains_def first_index_def keep_mask_def loc_def
      frame_append_def keys_def A_ex_def B_ex_def D_ex_def)

text \<open>
  The placeholder of a key that only \<open>B\<close> has is cut from \<open>A\<close>'s template frame as the first
  loop left it, six rows here, with the mask of the four original rows (lines 239 to 240
  and 252 to 253): were \<^verbatim>\<open>pd.nan\<close> the NaN scalar, \<open>loc\<close> would refuse the mask.
\<close>

lemma append_ex_other_only_key:
  "append_results_from (Some NaN) D_ex (Results E_ex) =
     (D_ex\<lparr>link := [(''flowrate'',
                        Frame [''p1''] [(0, [Num 1]), (25, [Num 2]),
                          (50, [Num 31]), (75, [Num 41]), (100, [Num 51]), (125, [Num 61])])]\<rparr>,
      Some IndexError)"
  by (simp add: append_results_from_def merge_results_def merge_frames_def merge_own_key_def
      merge_other_key_def getitem_def contains_def first_index_def keep_mask_def loc_def
      frame_append_def times_pd_nan_def mul_scalar_def keys_def A_ex_def B_ex_def D_ex_def E_ex_def)

section \<open>Properties of the water network model\<close>

lemma map_of_snoc_fresh:
  "map_of xs k = None \<Longrightarrow> map_of (xs @ [(k, v)]) = (map_of xs)(k \<mapsto> v)"
  by (auto simp: map_add_def fun_eq_iff split: option.splits)

lemma map_of_filter_neq:
  "map_of (filter (\<lambda>kl. fst kl \<noteq> name) xs) k = (if k = name then None else map_of xs k)"
  by (induction xs) auto

lemma register_node_Inr:
  assumes "register_node wn name n = Inr wn'"
  shows "map_of (nodes wn) name = None"
    and "wn' = wn\<lparr>nodes := nodes wn @ [(name, n)], graph_nodes := graph_nodes wn @ [name]\<rparr>"
  using assms by (auto simp: register_node_def has_node_def split: if_splits)

lemma register_link_Inr:
  assumes "register_link wn name l = Inr wn'"
  shows "map_of (links wn) name = None"
    and "has_node wn (start_node l)" and "has_node wn (end_node l)"
    and "wn' = wn\<lparr>links := links wn @ [(name, l)],
                   graph_edges := graph_edges wn @ [(start_node l, end_node l, name)]\<rparr>"
  using assms by (auto simp: register_link_def has_link_def split: if_splits)

lemma invariant_register_node:
  assumes inv: "model_invariant wn" and r: "register_node wn name n = Inr wn'"
  shows "model_invariant wn'"
proof -
  note f = register_node_Inr [OF r]
  have "has_node wn' x" if "has_node wn x" for x
    using that f by (auto simp: has_node_def map_of_snoc_fresh)
  with inv f(2) show ?thesis
    by (simp add: model_invariant_def cv_pipes_def link_edges_def)
qed

lemma invariant_register_link:
  assumes inv: "model_invariant wn" and r: "register_link wn name l = Inr wn'"
    and cv: "set cvs = (if is_pipe l \<and> base_status l = ''CV'' then insert name (set (check_valves wn))
                        else set (check_valves wn))"
  shows "model_invariant (wn'\<lparr>check_valves := cvs\<rparr>)"
proof -
  note f = register_link_Inr [OF r]
  let ?wn = "wn'\<lparr>check_valves := cvs\<rparr>"
  have "links wn' = links wn @ [(name, l)]" using f(4) by simp
  then have m: "map_of (links wn') = (map_of (links wn))(name \<mapsto> l)"
    using map_of_snoc_fresh [OF f(1)] by (simp only:)
  have n: "has_node ?wn = has_node wn"
    using f(4) by (simp add: has_node_def fun_eq_iff)
  from inv have old: "set (check_valves wn) = cv_pipes wn" "set (graph_edges wn) = link_edges wn"
    "\<forall>e\<in>set (graph_edges wn). has_node wn (fst e) \<and> has_node wn (fst (snd e))"
    by (simp_all add: model_invariant_def)
  have "cv_pipes ?wn = (if is_pipe l \<and> base_status l = ''CV'' then insert name (cv_pipes wn)
      else cv_pipes wn)"
    using f(1) by (auto simp: cv_pipes_def m)
  with cv old(1) have 1: "set (check_valves ?wn) = cv_pipes ?wn" by simp
  have "link_edges ?wn = insert (start_node l, end_node l, name) (link_edges wn)"
    using f(1) by (auto simp: link_edges_def m)
  with old(2) f(4) have 2: "set (graph_edges ?wn) = link_edges ?wn" by simp
  have 3: "\<forall>e\<in>set (graph_edges ?wn). has_node ?wn (fst e) \<and> has_node ?wn (fst (snd e))"
    using old(3) f(2,3) unfolding n by (auto simp: f(4))
  from 1 2 3 show ?thesis unfolding model_invariant_def by blast
qed

lemma invariant_unregister_link:
  assumes inv: "model_invariant wn"
    and cv: "set cvs = set (check_valves wn) - {name}"
  shows "model_invariant ((unregister_link wn name)\<lparr>check_valves := cvs\<rparr>)"
proof -
  let ?wn = "(unregister_link wn name)\<lparr>check_valves := cvs\<rparr>"
  have m: "map_of (links (unregister_link wn name)) k =
      (if k = name then None else map_of (links wn) k)" for k
    by (simp add: unregister_link_def map_of_filter_neq)
  have n: "has_node ?wn = has_node wn"
    by (simp add: has_node_def fun_eq_iff unregister_link_def)
  from inv have old: "set (check_valves wn) = cv_pipes wn" "set (graph_edges wn) = link_edges wn"
    "\<forall>e\<in>set (graph_edges wn). has_node wn (fst e) \<and> has_node wn (fst (snd e))"
    by (simp_all add: model_invariant_def)
  have "cv_pipes ?wn = cv_pipes wn - {name}"
    by (auto simp: cv_pipes_def m)
  with cv old(1) have 1: "set (check_valves ?wn) = cv_pipes ?wn" by simp
  have "link_edges ?wn = {e \<in> link_edges wn. snd (snd e) \<noteq> name}"
    by (auto simp: link_edges_def m)
  with old(2) have 2: "set (graph_edges ?wn) = link_edges ?wn"
    by (auto simp: unregister_link_def)
  have 3: "\<forall>e\<in>set (graph_edges ?wn). has_node ?wn (fst e) \<and> has_node ?wn (fst (snd e))"
    using old(3) unfolding n by (auto simp: unregister_link_def)
  from 1 2 3 show ?thesis unfolding model_invariant_def by blast
qed

lemma model_invariant_cong:
  "nodes a = nodes b \<Longrightarrow> links a = links b \<Longrightarrow> graph_edges a = graph_edges b \<Longrightarrow>
   check_valves a = check_valves b \<Longrightarrow> model_invariant a = model_invariant b"
  by (simp add: model_invariant_def cv_pipes_def link_edges_def has_node_def)

lemma invariant_add_junction:
  assumes "model_invariant wn" and "add_junction wn n d p e = Inr wn'"
  shows "model_invariant wn'"
proof -
  from assms(2) obtain w1 where w1: "register_node wn n (Junction n (to_float e) (to_float d) p) = Inr w1"
    and wn': "wn' = w1\<lparr>num_junctions := Suc (num_junctions w1)\<rparr>"
    by (auto simp: add_junction_def split: sum.splits)
  have "model_invariant wn' = model_invariant w1"
    by (rule model_invariant_cong) (simp_all add: wn')
  with invariant_register_node [OF assms(1) w1] show ?thesis by simp
qed

lemma invariant_add_tank:
  assumes "model_invariant wn" and "add_tank wn n e i lo hi d v = Inr wn'"
  shows "model_invariant wn'"
proof -
  from assms(2) obtain w1 x where w1: "register_node wn n x = Inr w1"
    and wn': "wn' = w1\<lparr>num_tanks := Suc (num_tanks w1)\<rparr>"
    by (auto simp: add_tank_def split: sum.splits)
  have "model_invariant wn' = model_invariant w1"
    by (rule model_invariant_cong) (simp_all add: wn')
  with invariant_register_node [OF assms(1) w1] show ?thesis by simp
qed

lemma invariant_add_reservoir:
  assumes "model_invariant wn" and "add_reservoir wn n h p = Inr wn'"
  shows "model_invariant wn'"
proof -
  from assms(2) obtain w1 x where w1: "register_node wn n x = Inr w1"
    and wn': "wn' = w1\<lparr>num_reservoirs := Suc (num_reservoirs w1)\<rparr>"
    by (auto simp: add_reservoir_def split: sum.splits)
  have "model_invariant wn' = model_invariant w1"
    by (rule model_invariant_cong) (simp_all add: wn')
  with invariant_register_node [OF assms(1) w1] show ?thesis by simp
qed

lemma register_link_check_valves:
  "register_link wn name l = Inr wn' \<Longrightarrow> check_valves wn' = check_valves wn"
  by (auto simp: register_link_def split: if_splits)

lemma invariant_add_pipe:
  assumes inv: "model_invariant wn" and a: "add_pipe wn n s e l d r m st = Inr wn'"
  shows "model_invariant wn'"
proof -
  let ?p = "Pipe n s e (to_float l) (to_float d) (to_float r) (to_float m) (upper st)"
  let ?cvs = "\<lambda>w. if upper st = ''CV'' then check_valves w @ [n] else check_valves w"
  from a obtain w1 where w1: "register_link wn n ?p = Inr w1"
    and wn': "wn' = w1\<lparr>num_pipes := Suc (num_pipes w1), check_valves := ?cvs w1\<rparr>"
    by (auto simp: add_pipe_def split: sum.splits)
  have "set (?cvs w1) = (if is_pipe ?p \<and> base_status ?p = ''CV''
      then insert n (set (check_valves wn)) else set (check_valves wn))"
    using register_link_check_valves [OF w1] by simp
  from invariant_register_link [OF inv w1 this]
  have "model_invariant (w1\<lparr>check_valves := ?cvs w1\<rparr>)" .
  moreover have "model_invariant wn' = model_invariant (w1\<lparr>check_valves := ?cvs w1\<rparr>)"
    by (rule model_invariant_cong) (simp_all add: wn')
  ultimately show ?thesis by simp
qed

lemma invariant_register_link_plain:
  assumes inv: "model_invariant wn" and r: "register_link wn name l = Inr wn'"
    and np: "\<not> is_pipe l"
  shows "model_invariant wn'"
proof -
  have "set (check_valves wn') = (if is_pipe l \<and> base_status l = ''CV''
      then insert name (set (check_valves wn)) else set (check_valves wn))"
    using register_link_check_valves [OF r] np by simp
  from invariant_register_link [OF inv r this] show ?thesis by simp
qed

lemma invariant_add_pump:
  assumes "model_invariant wn" and "add_pump rf wn n s e a = Inr wn'"
  shows "model_invariant wn'"
proof -
  from assms(2) obtain w1 i where w1: "register_link wn n (Pump n s e i) = Inr w1"
    and wn': "wn' = w1\<lparr>num_pumps := Suc (num_pumps w1)\<rparr>"
    by (auto simp: add_pump_def split: sum.splits)
  have "model_invariant wn' = model_invariant w1"
    by (rule model_invariant_cong) (simp_all add: wn')
  with invariant_register_link_plain [OF assms(1) w1] show ?thesis by simp
qed

lemma invariant_add_valve:
  assumes "model_invariant wn" and "add_valve wn n s e t v = Inr wn'"
  shows "model_invariant wn'"
proof -
  from assms(2) obtain w1 where w1: "register_link wn n (Valve n s e t (to_float v)) = Inr w1"
    and wn': "wn' = w1\<lparr>num_valves := Suc (num_valves w1)\<rparr>"
    by (auto simp: add_valve_def split: sum.splits)
  have "model_invariant wn' = model_invariant w1"
    by (rule model_invariant_cong) (simp_all add: wn')
  with invariant_register_link_plain [OF assms(1) w1] show ?thesis by simp
qed

lemma invariant_add_curve:
  assumes "model_invariant wn" and "add_curve wn n k pts = Inr wn'"
  shows "model_invariant wn'"
proof -
  from assms(2) obtain c where wn': "wn' = wn\<lparr>curves := c\<rparr>"
    by (auto simp: add_curve_def split: if_splits)
  have "model_invariant wn' = model_invariant wn"
    by (rule model_invariant_cong) (simp_all add: wn')
  with assms(1) show ?thesis by simp
qed

lemma invariant_remove_pipe:
  assumes inv: "model_invariant wn" and r: "remove_pipe wn n = Inr wn'"
  shows "model_invariant wn'"
proof -
  from r have wn': "wn' = (unregister_link wn n)
      \<lparr>check_valves := removeAll n (check_valves wn), num_pipes := num_pipes wn - 1\<rparr>"
    by (auto simp: remove_pipe_def split: option.splits if_splits)
  have "set (removeAll n (check_valves wn)) = set (check_valves wn) - {n}" by simp
  from invariant_unregister_link [OF inv this]
  have "model_invariant ((unregister_link wn n)\<lparr>check_valves := removeAll n (check_valves wn)\<rparr>)" .
  moreover have "model_invariant wn' =
      model_invariant ((unregister_link wn n)\<lparr>check_valves := removeAll n (check_valves wn)\<rparr>)"
    by (rule model_invariant_cong) (simp_all add: wn')
  ultimately show ?thesis by simp
qed

lemma invariant_unregister_other:
  assumes inv: "model_invariant wn" and l: "map_of (links wn) n = Some l" and np: "\<not> is_pipe l"
  shows "model_invariant (unregister_link wn n)"
proof -
  from inv have "set (check_valves wn) = cv_pipes wn" by (simp add: model_invariant_def)
  with l np have "n \<notin> set (check_valves wn)" by (auto simp: cv_pipes_def)
  then have "set (check_valves wn) = set (check_valves wn) - {n}" by simp
  from invariant_unregister_link [OF inv this]
  have "model_invariant ((unregister_link wn n)\<lparr>check_valves := check_valves wn\<rparr>)" .
  moreover have "model_invariant (unregister_link wn n) =
      model_invariant ((unregister_link wn n)\<lparr>check_valves := check_valves wn\<rparr>)"
    by (rule model_invariant_cong) (simp_all add: unregister_link_def)
  ultimately show ?thesis by simp
qed

lemma is_pump_not_pipe: "is_pump l \<Longrightarrow> \<not> is_pipe l"
  by (cases l) simp_all

lemma is_valve_not_pipe: "is_valve l \<Longrightarrow> \<not> is_pipe l"
  by (cases l) simp_all

lemma invariant_remove_pump:
  assumes "model_invariant wn" and "remove_pump wn n = Inr wn'"
  shows "model_invariant wn'"
proof -
  from assms(2) obtain l where l: "map_of (links wn) n = Some l" "is_pump l"
    and wn': "wn' = (unregister_link wn n)\<lparr>num_pumps := num_pumps wn - 1\<rparr>"
    by (auto simp: remove_pump_def split: option.splits if_splits)
  have "model_invariant wn' = model_invariant (unregister_link wn n)"
    by (rule model_invariant_cong) (simp_all add: wn')
  with invariant_unregister_other [OF assms(1) l(1) is_pump_not_pipe [OF l(2)]]
  show ?thesis by simp
qed

lemma invariant_remove_valve:
  assumes "model_invariant wn" and "remove_valve wn n = Inr wn'"
  shows "model_invariant wn'"
proof -
  from assms(2) obtain l where l: "map_of (links wn) n = Some l" "is_valve l"
    and wn': "wn' = (unregister_link wn n)\<lparr>num_valves := num_valves wn - 1\<rparr>"
    by (auto simp: remove_valve_def split: option.splits if_splits)
  have "model_invariant wn' = model_invariant (unregister_link wn n)"
    by (rule model_invariant_cong) (simp_all add: wn')
  with invariant_unregister_other [OF assms(1) l(1) is_valve_not_pipe [OF l(2)]]
  show ?thesis by simp
qed

lemma invariant_apply_operation:
  assumes "model_invariant wn" and "apply_operation rf wn x = Inr wn'"
  shows "model_invariant wn'"
proof (cases x)
  case AddJunction
  with assms show ?thesis by (simp add: invariant_add_junction)
next
  case AddTank
  with assms show ?thesis by (simp add: invariant_add_tank)
next
  case AddReservoir
  with assms show ?thesis by (simp add: invariant_add_reservoir)
next
  case AddPipe
  with assms show ?thesis by (simp add: invariant_add_pipe)
next
  case AddPump
  with assms show ?thesis by (simp add: invariant_add_pump)
next
  case AddValve
  with assms show ?thesis by (simp add: invariant_add_valve)
next
  case AddCurve
  with assms show ?thesis by (simp add: invariant_add_curve)
next
  case RemovePipe
  with assms show ?thesis by (simp add: invariant_remove_pipe)
next
  case RemovePump
  with assms show ?thesis by (simp add: invariant_remove_pump)
next
  case RemoveValve
  with assms show ?thesis by (simp add: invariant_remove_valve)
qed

lemma invariant_run: "model_invariant wn \<Longrightarrow> model_invariant (run rf wn xs)"
proof (induction xs arbitrary: wn)
  case Nil
  then show ?case by simp
next
  case (Cons x xs)
  show ?case
  proof (cases "apply_operation rf wn x")
    case (Inl e)
    with Cons show ?thesis by simp
  next
    case (Inr wn')
    with Cons.prems have "model_invariant wn'" by (rule invariant_apply_operation)
    with Cons.IH Inr show ?thesis by simp
  qed
qed

lemma invariant_empty: "model_invariant empty_model"
  by (simp add: model_invariant_def empty_model_def cv_pipes_def link_edges_def)

lemma invariant_history: "model_invariant (run rf empty_model xs)"
  using invariant_empty by (rule invariant_run)

lemma j1_j2_eval:
  "j1_j2 = empty_model\<lparr>nodes := [(''j1'', Junction ''j1'' 0 0 None), (''j2'', Junction ''j2'' 0 0 None)],
     graph_nodes := [''j1'', ''j2''], num_junctions := 2\<rparr>"
  by (simp add: j1_j2_def add_junction_def register_node_def has_node_def empty_model_def)

text \<open>
  Claim C7. In every model a history of mutations leads to, the check-valve names are
  exactly the names of the registered pipes whose status is \<^verbatim>\<open>CV\<close>. After a successful
  \<^verbatim>\<open>add_pipe\<close> whose status word reads \<^verbatim>\<open>CV\<close> in any letter case, the pipe's name is among
  them, \<^verbatim>\<open>remove_pipe\<close> of that name succeeds, and after any successful \<^verbatim>\<open>remove_pipe\<close> the
  name is not among them.
\<close>

theorem check_valve_names:
  assumes "wn = run rf empty_model ops"
  shows "set (check_valves wn) = cv_pipes wn \<and>
         (\<forall>name s e l d r m st wn'.
            add_pipe wn name s e l d r m st = Inr wn' \<and> upper st = ''CV'' \<longrightarrow>
              name \<in> set (check_valves wn') \<and>
              (\<exists>wn''. remove_pipe wn' name = Inr wn'' \<and> name \<notin> set (check_valves wn''))) \<and>
         (\<forall>name wn'. remove_pipe wn name = Inr wn' \<longrightarrow> name \<notin> set (check_valves wn'))"
proof -
  have inv: "set (check_valves wn) = cv_pipes wn"
    using invariant_history [of rf ops] assms by (simp add: model_invariant_def)
  have rem: "name \<notin> set (check_valves w')" if "remove_pipe w name = Inr w'" for w w' name
    using that by (auto simp: remove_pipe_def split: option.splits if_splits)
  have add: "name \<in> set (check_valves wn') \<and>
      (\<exists>wn''. remove_pipe wn' name = Inr wn'' \<and> name \<notin> set (check_valves wn''))"
    if a: "add_pipe wn name s e l d r m st = Inr wn'" and cv: "upper st = ''CV''"
    for name s e l d r m st wn'
  proof -
    let ?p = "Pipe name s e (to_float l) (to_float d) (to_float r) (to_float m) (upper st)"
    from a obtain w1 where w1: "register_link wn name ?p = Inr w1"
      and wn': "wn' = w1\<lparr>num_pipes := Suc (num_pipes w1),
          check_valves := (if upper st = ''CV'' then check_valves w1 @ [name] else check_valves w1)\<rparr>"
      by (auto simp: add_pipe_def split: sum.splits)
    from wn' cv have 1: "name \<in> set (check_valves wn')" by simp
    note f = register_link_Inr [OF w1]
    have "links w1 = links wn @ [(name, ?p)]" using f(4) by simp
    then have "map_of (links w1) = (map_of (links wn))(name \<mapsto> ?p)"
      using map_of_snoc_fresh [OF f(1)] by (simp only:)
    then have "map_of (links wn') name = Some ?p" by (simp add: wn')
    then obtain wn'' where r: "remove_pipe wn' name = Inr wn''"
      by (simp add: remove_pipe_def)
    from rem [OF r] r 1 show ?thesis by blast
  qed
  from inv add rem show ?thesis by blast
qed

theorem check_valve_names_witness:
  "j1_j2 = run no_solver empty_model
     [AddJunction ''j1'' (IntNum 0) None (IntNum 0), AddJunction ''j2'' (IntNum 0) None (IntNum 0)] \<and>
   upper ''cV'' = ''CV'' \<and>
   (\<exists>wn'. add_pipe j1_j2 ''p1'' ''j1'' ''j2'' (IntNum 1000) (IntNum 1) (IntNum 100) (IntNum 0) ''cV''
            = Inr wn' \<and>
      check_valves wn' = [''p1''] \<and>
      (\<exists>wn''. remove_pipe wn' ''p1'' = Inr wn'' \<and> ''p1'' \<notin> set (check_valves wn'')))"
proof -
  have up: "upper ''cV'' = ''CV''" by code_simp
  obtain wn' where a: "add_pipe j1_j2 ''p1'' ''j1'' ''j2'' (IntNum 1000) (IntNum 1) (IntNum 100) (IntNum 0) ''cV''
      = Inr wn'" and c: "check_valves wn' = [''p1'']"
    by (simp add: add_pipe_def register_link_def has_link_def has_node_def j1_j2_eval empty_model_def up)
  from check_valve_names [OF j1_j2_def] a up
  have "\<exists>wn''. remove_pipe wn' ''p1'' = Inr wn'' \<and> ''p1'' \<notin> set (check_valves wn'')" by blast
  with a c up j1_j2_def show ?thesis by blast
qed

text \<open>
  Claim C8. In every model a history of mutations leads to, \<^verbatim>\<open>add_junction\<close> with a name
  that no node has succeeds; afterwards \<^verbatim>\<open>get_node\<close> returns the junction with that name,
  the pattern reference as given, and the base demand and the elevation as the
  floating-point values of the arguments, whether these were integers or not; the graph
  has the name as a vertex, no edge starts or ends there, and no link is incident to it.
\<close>

theorem add_junction_get_node:
  assumes "wn = run rf empty_model ops" and "\<not> has_node wn name"
  shows "\<exists>wn'. add_junction wn name demand pattern elev = Inr wn' \<and>
           get_node wn' name = Inr (Junction name (to_float elev) (to_float demand) pattern) \<and>
           name \<in> set (graph_nodes wn') \<and>
           (\<forall>e\<in>set (graph_edges wn'). fst e \<noteq> name \<and> fst (snd e) \<noteq> name) \<and>
           get_links_for_node wn' name = []"
proof -
  let ?j = "Junction name (to_float elev) (to_float demand) pattern"
  let ?wn' = "wn\<lparr>nodes := nodes wn @ [(name, ?j)], graph_nodes := graph_nodes wn @ [name],
      num_junctions := Suc (num_junctions wn)\<rparr>"
  from assms(2) have fresh: "map_of (nodes wn) name = None" by (simp add: has_node_def)
  have run: "add_junction wn name demand pattern elev = Inr ?wn'"
    using assms(2) by (simp add: add_junction_def register_node_def)
  have "map_of (nodes ?wn') = (map_of (nodes wn))(name \<mapsto> ?j)"
    using map_of_snoc_fresh [OF fresh] by simp
  then have get: "get_node ?wn' name = Inr ?j" by (simp add: get_node_def)
  have "\<forall>e\<in>set (graph_edges wn). has_node wn (fst e) \<and> has_node wn (fst (snd e))"
    using invariant_history [of rf ops] assms(1) by (simp add: model_invariant_def)
  with assms(2) have iso: "\<forall>e\<in>set (graph_edges ?wn'). fst e \<noteq> name \<and> fst (snd e) \<noteq> name"
    by auto
  then have "get_links_for_node ?wn' name = []"
    by (auto simp: get_links_for_node_def filter_empty_conv)
  with run get iso show ?thesis by simp
qed

theorem add_junction_get_node_witness:
  "\<not> has_node (run no_solver empty_model []) ''j1'' \<and>
   (\<exists>wn'. add_junction (run no_solver empty_model []) ''j1'' (IntNum 150) (Some ''pattern1'') (IntNum 15)
            = Inr wn' \<and>
      get_node wn' ''j1'' = Inr (Junction ''j1'' 15 150 (Some ''pattern1'')) \<and>
      ''j1'' \<in> set (graph_nodes wn') \<and> get_links_for_node wn' ''j1'' = [])"
proof -
  have h: "\<not> has_node (run no_solver empty_model []) ''j1''"
    by (simp add: has_node_def empty_model_def)
  from add_junction_get_node [OF refl h, of "IntNum 150" "Some ''pattern1''" "IntNum 15"] h
  show ?thesis by auto
qed

text \<open>
  Claim C9. In every model a history of mutations leads to, and for every node name, the
  names that \<^verbatim>\<open>get_links_for_node\<close> returns are, as a set, exactly the names of the
  registered links that start or end at that node.
\<close>

theorem get_links_for_node_incident:
  assumes "wn = run rf empty_model ops"
  shows "set (get_links_for_node wn name) =
           {k. \<exists>l. map_of (links wn) k = Some l \<and> (start_node l = name \<or> end_node l = name)}"
proof -
  have "set (graph_edges wn) = link_edges wn"
    using invariant_history [of rf ops] assms by (simp add: model_invariant_def)
  then have edges: "\<And>e. e \<in> set (graph_edges wn) \<longleftrightarrow>
      (\<exists>l. map_of (links wn) (snd (snd e)) = Some l \<and> fst e = start_node l \<and> fst (snd e) = end_node l)"
    by (simp add: link_edges_def)
  show ?thesis
  proof (intro set_eqI iffI)
    fix k assume "k \<in> set (get_links_for_node wn name)"
    then obtain e where e: "e \<in> set (graph_edges wn)" "fst e = name \<or> fst (snd e) = name"
      "k = snd (snd e)"
      by (auto simp: get_links_for_node_def)
    from e(1) edges obtain l where "map_of (links wn) (snd (snd e)) = Some l"
      "fst e = start_node l" "fst (snd e) = end_node l" by blast
    with e(2,3) show "k \<in> {k. \<exists>l. map_of (links wn) k = Some l \<and>
        (start_node l = name \<or> end_node l = name)}" by auto
  next
    fix k assume "k \<in> {k. \<exists>l. map_of (links wn) k = Some l \<and>
        (start_node l = name \<or> end_node l = name)}"
    then obtain l where l: "map_of (links wn) k = Some l" "start_node l = name \<or> end_node l = name"
      by blast
    let ?e = "(start_node l, end_node l, k)"
    from l(1) have "?e \<in> set (graph_edges wn)" by (simp add: edges)
    moreover from l(2) have "fst ?e = name \<or> fst (snd ?e) = name" by simp
    ultimately have "snd (snd ?e) \<in> set (get_links_for_node wn name)"
      unfolding get_links_for_node_def set_map set_filter by blast
    then show "k \<in> set (get_links_for_node wn name)" by simp
  qed
qed

lemma test_net_edges:
  "graph_edges test_net =
     [(''j1'', ''j2'', ''p1''), (''j1'', ''j4'', ''p2''), (''j1'', ''j5'', ''p3''), (''j3'', ''j2'', ''p4'')]"
  by (simp add: test_net_def add_junction_def register_node_def has_node_def empty_model_def
      add_pipe_def register_link_def has_link_def)

theorem get_links_for_node_incident_witness:
  "test_net = run no_solver empty_model
     [AddJunction ''j1'' (IntNum 0) None (IntNum 0),
      AddJunction ''j2'' (IntNum 0) None (IntNum 0),
      AddJunction ''j3'' (IntNum 0) None (IntNum 0),
      AddJunction ''j4'' (IntNum 0) None (IntNum 0),
      AddJunction ''j5'' (IntNum 0) None (IntNum 0),
      AddPipe ''p1'' ''j1'' ''j2'' (IntNum 1000) (IntNum 1) (IntNum 100) (IntNum 0) ''Open'',
      AddPipe ''p2'' ''j1'' ''j4'' (IntNum 1000) (IntNum 1) (IntNum 100) (IntNum 0) ''Open'',
      AddPipe ''p3'' ''j1'' ''j5'' (IntNum 1000) (IntNum 1) (IntNum 100) (IntNum 0) ''Open'',
      AddPipe ''p4'' ''j3'' ''j2'' (IntNum 1000) (IntNum 1) (IntNum 100) (IntNum 0) ''Open''] \<and>
   get_links_for_node test_net ''j1'' = [''p1'', ''p2'', ''p3''] \<and>
   get_links_for_node test_net ''j2'' = [''p1'', ''p4''] \<and>
   {k. \<exists>l. map_of (links test_net) k = Some l \<and> (start_node l = ''j2'' \<or> end_node l = ''j2'')} =
     {''p1'', ''p4''}"
proof -
  have 1: "get_links_for_node test_net ''j1'' = [''p1'', ''p2'', ''p3'']"
    and 2: "get_links_for_node test_net ''j2'' = [''p1'', ''p4'']"
    by (simp_all add: get_links_for_node_def test_net_edges)
  from get_links_for_node_incident [OF test_net_def, of "''j2''"] 2
  have "{k. \<exists>l. map_of (links test_net) k = Some l \<and> (start_node l = ''j2'' \<or> end_node l = ''j2'')} =
     {''p1'', ''p4''}" by simp
  with 1 2 test_net_def show ?thesis by blast
qed

end
